theory Spec2Isabelle
  imports Complex_Main "HOL-Library.AList" "HOL-Library.List_Lexorder"
begin

section \<open>Python values used by the two scripts\<close>

text \<open>
  The repository holds two batch scripts: \<^verbatim>\<open>amazigh/pipeline.py\<close> (cleaning, whitespace
  tokenisation, counts of 1- to 5-grams, add-one smoothed negative log-probabilities) and
  \<^verbatim>\<open>ngrams_tp.py\<close> (sentence files, NLTK n-grams, unsmoothed relative frequencies).

  Conventions of the embedding:
  \<^item> a Python \<^verbatim>\<open>str\<close> is the list of its code points (\<open>nat list\<close>), since the cleaning
    regular expressions name code points beyond one byte;
  \<^item> a tuple of tokens is a list; a \<^verbatim>\<open>dict\<close>, \<^verbatim>\<open>Counter\<close> or \<^verbatim>\<open>FreqDist\<close> is an association
    list in insertion order, updated with \<open>AList.update\<close> (replace in place, else append), which
    is what assignment to a key does in Python;
  \<^item> occurrence counts are \<open>nat\<close>; the result of \<^verbatim>\<open>/\<close> and of \<^verbatim>\<open>math.log\<close> is a \<open>real\<close>, i.e.
    floating-point rounding is not part of the model;
  \<^item> an exception is the left summand of \<open>error + 'a\<close>.
\<close>

type_synonym ustring = "nat list"

datatype error =
    ZeroDivisionError | ValueError | KeyError | IndexError
  | FileNotFoundError | UnicodeDecodeError | IsADirectoryError | PermissionError

definition ustr :: "string \<Rightarrow> ustring" where
  "ustr s = map of_char s"

text \<open>Slice bounds are clamped the way Python clamps them; a negative bound counts from the end.\<close>

definition py_index :: "nat \<Rightarrow> int \<Rightarrow> nat" where
  "py_index len i = (if i < 0 then nat (max (i + int len) 0) else min (nat i) len)"

definition py_slice :: "'a list \<Rightarrow> int \<Rightarrow> int \<Rightarrow> 'a list" where
  "py_slice xs lo hi =
     (let start = py_index (length xs) lo; stop = py_index (length xs) hi
      in take (stop - start) (drop start xs))"

text \<open>\<^verbatim>\<open>range(k)\<close>: empty when \<open>k \<le> 0\<close>.\<close>

definition py_range :: "int \<Rightarrow> int list" where
  "py_range k = map int [0..<nat k]"

text \<open>\<^verbatim>\<open>d.get(k, dflt)\<close>, also \<^verbatim>\<open>d[k] if k in d else dflt\<close>; and \<^verbatim>\<open>d[k]\<close>, which raises.\<close>

definition dict_get :: "('k \<times> 'v) list \<Rightarrow> 'k \<Rightarrow> 'v \<Rightarrow> 'v" where
  "dict_get d k dflt = (case map_of d k of None \<Rightarrow> dflt | Some v \<Rightarrow> v)"

definition dict_index :: "('k \<times> 'v) list \<Rightarrow> 'k \<Rightarrow> error + 'v" where
  "dict_index d k = (case map_of d k of None \<Rightarrow> Inl KeyError | Some v \<Rightarrow> Inr v)"

text \<open>
  A dict comprehension \<^verbatim>\<open>{key(x): value(x) for x in xs}\<close>: the entries are assigned one after
  the other, and an exception in an entry ends the comprehension.
\<close>

fun dict_comprehension ::
  "('a \<Rightarrow> error + ('k \<times> 'v)) \<Rightarrow> 'a list \<Rightarrow> ('k \<times> 'v) list \<Rightarrow> error + ('k \<times> 'v) list" where
  "dict_comprehension f [] d = Inr d"
| "dict_comprehension f (x # xs) d =
     (case f x of
        Inl e \<Rightarrow> Inl e
      | Inr (k, v) \<Rightarrow> dict_comprehension f xs (AList.update k v d))"

text \<open>\<^verbatim>\<open>Counter.update(iterable)\<close>: each element adds one to its count (a missing key counts 0).\<close>

fun counter_update :: "('k \<times> nat) list \<Rightarrow> 'k list \<Rightarrow> ('k \<times> nat) list" where
  "counter_update c [] = c"
| "counter_update c (x # xs) = counter_update (AList.update x (dict_get c x 0 + 1) c) xs"

definition Counter :: "'k list \<Rightarrow> ('k \<times> nat) list" where
  "Counter xs = counter_update [] xs"

text \<open>\<^verbatim>\<open>nltk.FreqDist\<close> is a subclass of \<^verbatim>\<open>Counter\<close>.\<close>

definition FreqDist :: "'k list \<Rightarrow> ('k \<times> nat) list" where
  "FreqDist xs = Counter xs"

text \<open>True division of two counts, and \<^verbatim>\<open>math.log\<close>, with the exceptions they raise.\<close>

definition truediv :: "nat \<Rightarrow> nat \<Rightarrow> error + real" where
  "truediv a b = (if b = 0 then Inl ZeroDivisionError else Inr (real a / real b))"

definition py_log :: "real \<Rightarrow> error + real" where
  "py_log x = (if x \<le> 0 then Inl ValueError else Inr (ln x))"

text \<open>\<^verbatim>\<open>ngram[:-1]\<close>, the conditioning prefix of a gram.\<close>

definition ngram_prefix :: "'a list \<Rightarrow> 'a list" where
  "ngram_prefix ngram = py_slice ngram 0 (- 1)"

section \<open>\<^verbatim>\<open>pipeline.py\<close>: n-grams and smoothed negative log-probabilities\<close>

text \<open>
  \<^verbatim>\<open>
  def build_ngrams(tokens, n):
      ngrams = []
      for i in range(len(tokens) - n + 1):
          ngrams.append(tuple(tokens[i:i + n]))
      return ngrams
  \<close>
\<close>

definition build_ngrams :: "'a list \<Rightarrow> int \<Rightarrow> 'a list list" where
  "build_ngrams tokens n =
     map (\<lambda>i. py_slice tokens i (i + n)) (py_range (int (length tokens) - n + 1))"

text \<open>
  The body of the loop of \<^verbatim>\<open>calculate_probabilities\<close> up to the division:
  \<^verbatim>\<open>
  prefix = ngram[:-1]
  prefix_count = lower_counts[prefix] if prefix in lower_counts else 0
  prob = (count + 1) / (prefix_count + vocab_size)
  \<close>
\<close>

definition pipeline_prob ::
  "('a list \<times> nat) list \<Rightarrow> nat \<Rightarrow> 'a list \<Rightarrow> nat \<Rightarrow> error + real" where
  "pipeline_prob lower_counts vocab_size ngram count =
     (let prefix = ngram_prefix ngram;
          prefix_count = dict_get lower_counts prefix 0
      in truediv (count + 1) (prefix_count + vocab_size))"

text \<open>The loop over \<^verbatim>\<open>ngram_counts.items()\<close>, storing \<^verbatim>\<open>-log(prob)\<close> under the gram.\<close>

fun pipeline_probabilities_loop ::
  "('a list \<times> nat) list \<Rightarrow> ('a list \<times> nat) list \<Rightarrow> nat \<Rightarrow> ('a list \<times> real) list
     \<Rightarrow> error + ('a list \<times> real) list" where
  "pipeline_probabilities_loop [] lower_counts vocab_size probabilities = Inr probabilities"
| "pipeline_probabilities_loop ((ngram, count) # items) lower_counts vocab_size probabilities =
     (case pipeline_prob lower_counts vocab_size ngram count of
        Inl e \<Rightarrow> Inl e
      | Inr prob \<Rightarrow>
          (case py_log prob of
             Inl e \<Rightarrow> Inl e
           | Inr l \<Rightarrow> pipeline_probabilities_loop items lower_counts vocab_size
                      (AList.update ngram (- l) probabilities)))"

definition pipeline_calculate_probabilities ::
  "('a list \<times> nat) list \<Rightarrow> ('a list \<times> nat) list \<Rightarrow> error + ('a list \<times> real) list" where
  "pipeline_calculate_probabilities ngram_counts lower_counts =
     pipeline_probabilities_loop ngram_counts lower_counts (length lower_counts) []"

text \<open>
  The tables of \<^verbatim>\<open>process_corpus\<close>, from the token list on: \<^verbatim>\<open>counts[n]\<close> for \<open>n\<close> from 1 to 5
  is an empty \<^verbatim>\<open>Counter\<close> updated with the grams of order \<open>n\<close>, and \<^verbatim>\<open>probabilities[n]\<close> for
  \<open>n\<close> from 2 to 5 is computed from \<^verbatim>\<open>counts[n]\<close> and a copy of \<^verbatim>\<open>counts[n - 1]\<close>.
\<close>

definition process_corpus_counts :: "'a list \<Rightarrow> (int \<times> ('a list \<times> nat) list) list" where
  "process_corpus_counts tokens =
     map (\<lambda>n. (n, counter_update [] (build_ngrams tokens n))) [1..5]"

definition dict_copy :: "('k \<times> 'v) list \<Rightarrow> error + ('k \<times> 'v) list" where
  "dict_copy d = dict_comprehension (\<lambda>(k, v). Inr (k, v)) d []"

fun process_corpus_probabilities_loop ::
  "int list \<Rightarrow> (int \<times> ('a list \<times> nat) list) list \<Rightarrow> (int \<times> ('a list \<times> real) list) list
     \<Rightarrow> error + (int \<times> ('a list \<times> real) list) list" where
  "process_corpus_probabilities_loop [] counts probabilities = Inr probabilities"
| "process_corpus_probabilities_loop (n # ns) counts probabilities =
     (case dict_index counts n of
        Inl e \<Rightarrow> Inl e
      | Inr counts_n \<Rightarrow>
          (case dict_index counts (n - 1) of
             Inl e \<Rightarrow> Inl e
           | Inr counts_lower \<Rightarrow>
               (case dict_copy counts_lower of
                  Inl e \<Rightarrow> Inl e
                | Inr lower \<Rightarrow>
                    (case pipeline_calculate_probabilities counts_n lower of
                       Inl e \<Rightarrow> Inl e
                     | Inr p \<Rightarrow> process_corpus_probabilities_loop ns counts
                                (AList.update n p probabilities)))))"

definition process_corpus_probabilities ::
  "'a list \<Rightarrow> error + (int \<times> ('a list \<times> real) list) list" where
  "process_corpus_probabilities tokens =
     process_corpus_probabilities_loop [2..5] (process_corpus_counts tokens) []"

section \<open>\<^verbatim>\<open>ngrams_tp.py\<close>: relative frequencies\<close>

text \<open>
  \<^verbatim>\<open>nltk.util.ngrams(sequence, n)\<close> (and \<^verbatim>\<open>bigrams\<close>, \<^verbatim>\<open>trigrams\<close>, its instances at 2 and 3)
  belongs to the NLTK library, not to the repository. Called without padding, as here, it
  zips \<open>n\<close> copies of the sequence, the \<open>i\<close>-th advanced by \<open>i\<close> items: the windows of \<open>n\<close>
  consecutive items, in order of occurrence.
\<close>

definition nltk_ngrams :: "'a list \<Rightarrow> nat \<Rightarrow> 'a list list" where
  "nltk_ngrams sequence n =
     (if n = 0 then []
      else map (\<lambda>i. take n (drop i sequence)) [0..<length sequence + 1 - n])"

text \<open>
  \<^verbatim>\<open>
  def calculate_probabilities(ngram_freq, prev_ngram_freq):
      probs = {}
      for ngram, count in ngram_freq.items():
          if len(ngram) > 1:
              prev_ngram = ngram[:-1]
              prev_count = prev_ngram_freq.get(prev_ngram, 0)
              if prev_count > 0:
                  probs[ngram] = count / prev_count
              else:
                  probs[ngram] = 0.0
          else:
              total = sum(ngram_freq.values())
              if total > 0:
                  probs[ngram] = count / total
              else:
                  probs[ngram] = 0.0
      return probs
  \<close>
\<close>

fun ngrams_tp_probabilities_loop ::
  "('a list \<times> nat) list \<Rightarrow> ('a list \<times> nat) list \<Rightarrow> ('a list \<times> nat) list
     \<Rightarrow> ('a list \<times> real) list \<Rightarrow> error + ('a list \<times> real) list" where
  "ngrams_tp_probabilities_loop [] ngram_freq prev_ngram_freq probs = Inr probs"
| "ngrams_tp_probabilities_loop ((ngram, count) # items) ngram_freq prev_ngram_freq probs =
     (if length ngram > 1 then
        (let prev_ngram = ngram_prefix ngram;
             prev_count = dict_get prev_ngram_freq prev_ngram 0
         in if prev_count > 0 then
              (case truediv count prev_count of
                 Inl e \<Rightarrow> Inl e
               | Inr p \<Rightarrow> ngrams_tp_probabilities_loop items ngram_freq prev_ngram_freq
                          (AList.update ngram p probs))
            else ngrams_tp_probabilities_loop items ngram_freq prev_ngram_freq
                   (AList.update ngram 0 probs))
      else
        (let total = sum_list (map snd ngram_freq)
         in if total > 0 then
              (case truediv count total of
                 Inl e \<Rightarrow> Inl e
               | Inr p \<Rightarrow> ngrams_tp_probabilities_loop items ngram_freq prev_ngram_freq
                          (AList.update ngram p probs))
            else ngrams_tp_probabilities_loop items ngram_freq prev_ngram_freq
                   (AList.update ngram 0 probs)))"

definition ngrams_tp_calculate_probabilities ::
  "('a list \<times> nat) list \<Rightarrow> ('a list \<times> nat) list \<Rightarrow> error + ('a list \<times> real) list" where
  "ngrams_tp_calculate_probabilities ngram_freq prev_ngram_freq =
     ngrams_tp_probabilities_loop ngram_freq ngram_freq prev_ngram_freq []"

text \<open>\<^verbatim>\<open>ngram_to_string(ngram)\<close> is \<^verbatim>\<open>' '.join(ngram)\<close>.\<close>

fun str_join :: "ustring \<Rightarrow> ustring list \<Rightarrow> ustring" where
  "str_join sep [] = []"
| "str_join sep [x] = x"
| "str_join sep (x # y # zs) = x @ sep @ str_join sep (y # zs)"

definition ngram_to_string :: "ustring list \<Rightarrow> ustring" where
  "ngram_to_string ngram = str_join [32] ngram"

text \<open>
  The tables of \<^verbatim>\<open>process_language\<close>, from the token list on. Unigrams are counted by word
  (not by 1-tuple), so the bigram loop looks up \<^verbatim>\<open>bigram[0]\<close>:
  \<^verbatim>\<open>
  unigrams = FreqDist(tokens)
  total_unigrams = sum(unigrams.values())
  ngram_probs[1] = {ngram_to_string((word,)): count / total_unigrams if total_unigrams > 0 else 0.0
                    for word, count in unigrams.items()}
  bigram_freq = FreqDist(list(bigrams(tokens)))
  bigram_probs = {}
  for bigram, count in bigram_freq.items():
      w1 = bigram[0]
      w1_count = unigrams.get(w1, 0)
      if w1_count > 0:
          bigram_probs[bigram] = count / w1_count
      else:
          bigram_probs[bigram] = 0.0
  \<close>
\<close>

definition unigrams :: "ustring list \<Rightarrow> (ustring \<times> nat) list" where
  "unigrams tokens = FreqDist tokens"

definition total_unigrams :: "ustring list \<Rightarrow> nat" where
  "total_unigrams tokens = sum_list (map snd (unigrams tokens))"

definition ngram_probs_1 :: "ustring list \<Rightarrow> error + (ustring \<times> real) list" where
  "ngram_probs_1 tokens =
     dict_comprehension
       (\<lambda>(word, count).
          if total_unigrams tokens > 0 then
            (case truediv count (total_unigrams tokens) of
               Inl e \<Rightarrow> Inl e
             | Inr p \<Rightarrow> Inr (ngram_to_string [word], p))
          else Inr (ngram_to_string [word], 0))
       (unigrams tokens) []"

definition bigram_freq :: "ustring list \<Rightarrow> (ustring list \<times> nat) list" where
  "bigram_freq tokens = FreqDist (nltk_ngrams tokens 2)"

fun bigram_probs_loop ::
  "(ustring list \<times> nat) list \<Rightarrow> (ustring \<times> nat) list \<Rightarrow> (ustring list \<times> real) list
     \<Rightarrow> error + (ustring list \<times> real) list" where
  "bigram_probs_loop [] unigrams_tbl bigram_probs = Inr bigram_probs"
| "bigram_probs_loop ((bigram, count) # items) unigrams_tbl bigram_probs =
     (case bigram of
        [] \<Rightarrow> Inl IndexError
      | w1 # _ \<Rightarrow>
          (let w1_count = dict_get unigrams_tbl w1 0
           in if w1_count > 0 then
                (case truediv count w1_count of
                   Inl e \<Rightarrow> Inl e
                 | Inr p \<Rightarrow> bigram_probs_loop items unigrams_tbl (AList.update bigram p bigram_probs))
              else bigram_probs_loop items unigrams_tbl (AList.update bigram 0 bigram_probs)))"

definition bigram_probs :: "ustring list \<Rightarrow> error + (ustring list \<times> real) list" where
  "bigram_probs tokens = bigram_probs_loop (bigram_freq tokens) (unigrams tokens) []"

definition trigram_freq :: "ustring list \<Rightarrow> (ustring list \<times> nat) list" where
  "trigram_freq tokens = FreqDist (nltk_ngrams tokens 3)"

definition quadrigram_freq :: "ustring list \<Rightarrow> (ustring list \<times> nat) list" where
  "quadrigram_freq tokens = FreqDist (nltk_ngrams tokens 4)"

definition pentagram_freq :: "ustring list \<Rightarrow> (ustring list \<times> nat) list" where
  "pentagram_freq tokens = FreqDist (nltk_ngrams tokens 5)"

text \<open>
  \<^verbatim>\<open>{ngram_to_string(ngram): prob for ngram, prob in probs.items()}\<close>, the last step of every
  \<^verbatim>\<open>ngram_probs[n]\<close> with \<open>n \<ge> 2\<close>.
\<close>

definition string_keys :: "(ustring list \<times> 'v) list \<Rightarrow> error + (ustring \<times> 'v) list" where
  "string_keys d = dict_comprehension (\<lambda>(ngram, v). Inr (ngram_to_string ngram, v)) d []"

definition ngram_probs_2 :: "ustring list \<Rightarrow> error + (ustring \<times> real) list" where
  "ngram_probs_2 tokens =
     (case bigram_probs tokens of Inl e \<Rightarrow> Inl e | Inr probs \<Rightarrow> string_keys probs)"

definition ngram_probs_3 :: "ustring list \<Rightarrow> error + (ustring \<times> real) list" where
  "ngram_probs_3 tokens =
     (case ngrams_tp_calculate_probabilities (trigram_freq tokens) (bigram_freq tokens) of
        Inl e \<Rightarrow> Inl e | Inr probs \<Rightarrow> string_keys probs)"

definition ngram_probs_4 :: "ustring list \<Rightarrow> error + (ustring \<times> real) list" where
  "ngram_probs_4 tokens =
     (case ngrams_tp_calculate_probabilities (quadrigram_freq tokens) (trigram_freq tokens) of
        Inl e \<Rightarrow> Inl e | Inr probs \<Rightarrow> string_keys probs)"

definition ngram_probs_5 :: "ustring list \<Rightarrow> error + (ustring \<times> real) list" where
  "ngram_probs_5 tokens =
     (case ngrams_tp_calculate_probabilities (pentagram_freq tokens) (quadrigram_freq tokens) of
        Inl e \<Rightarrow> Inl e | Inr probs \<Rightarrow> string_keys probs)"

text \<open>
  The estimate of Policy B in the words of the specification, to compare the code with: a
  unigram has its share of the total count, a longer gram has its count divided by the count
  of its prefix (0 when the prefix is not a key), and a zero denominator gives 0.
\<close>

definition spec_policy_B_prob ::
  "('a list \<times> nat) list \<Rightarrow> ('a list \<times> nat) list \<Rightarrow> 'a list \<Rightarrow> nat \<Rightarrow> real" where
  "spec_policy_B_prob freq prev_freq g c =
     (if 1 < length g then
        (if dict_get prev_freq (butlast g) 0 = 0 then 0
         else real c / real (dict_get prev_freq (butlast g) 0))
      else
        (if sum_list (map snd freq) = 0 then 0
         else real c / real (sum_list (map snd freq))))"

section \<open>\<^verbatim>\<open>pipeline.py\<close>: cleaning the text\<close>

text \<open>
  White space is what Python's \<^verbatim>\<open>\s\<close> (on \<^verbatim>\<open>str\<close> patterns), \<^verbatim>\<open>str.strip()\<close> and \<^verbatim>\<open>str.split()\<close>
  take it to be: U+0009 to U+000D, U+001C to U+0020, U+0085, U+00A0, U+1680, U+2000 to U+200A,
  U+2028, U+2029, U+202F, U+205F and U+3000.
\<close>

definition is_space :: "nat \<Rightarrow> bool" where
  "is_space c \<longleftrightarrow>
     (9 \<le> c \<and> c \<le> 13) \<or> (28 \<le> c \<and> c \<le> 32) \<or> c = 133 \<or> c = 160 \<or> c = 5760 \<or>
     (8192 \<le> c \<and> c \<le> 8202) \<or> c = 8232 \<or> c = 8233 \<or> c = 8239 \<or> c = 8287 \<or> c = 12288"

text \<open>
  The characters kept by the fifth substitution, the complement of the class
  \<^verbatim>\<open>[^0-9A-Za-z\u0600-\u06FF\u2D30-\u2D7F{U+2019}'{U+02BF}_\-\s]\<close> (the two characters
  beyond ASCII of the source line are written here by their code points in braces): digits, ASCII letters, U+0600 to U+06FF,
  U+2D30 to U+2D7F, the right single quotation mark U+2019, the apostrophe, the modifier
  letter U+02BF, underscore, hyphen and white space.
\<close>

definition allowed_char :: "nat \<Rightarrow> bool" where
  "allowed_char c \<longleftrightarrow>
     (48 \<le> c \<and> c \<le> 57) \<or> (65 \<le> c \<and> c \<le> 90) \<or> (97 \<le> c \<and> c \<le> 122) \<or>
     (1536 \<le> c \<and> c \<le> 1791) \<or> (11568 \<le> c \<and> c \<le> 11647) \<or>
     c = 8217 \<or> c = 39 \<or> c = 703 \<or> c = 95 \<or> c = 45 \<or> is_space c"

text \<open>
  \<^verbatim>\<open>re.sub(pattern, " ", text)\<close>: the text is scanned from the left; where the pattern matches,
  the match is replaced by one space and the scan goes on after it; where it does not, the
  character is kept. The pattern is given by its matcher: \<open>m text\<close> is the text left after
  the match when the pattern matches a prefix of \<open>text\<close>, and \<open>None\<close> otherwise. None of the
  six patterns matches the empty string, so the rest is shorter than the text; the test on
  the lengths states that, and makes the scan terminate for every matcher.
\<close>

fun re_sub :: "(ustring \<Rightarrow> ustring option) \<Rightarrow> ustring \<Rightarrow> ustring" where
  "re_sub m [] = []"
| "re_sub m (c # cs) =
     (case m (c # cs) of
        Some rest \<Rightarrow>
          (if length rest \<le> length cs then 32 # re_sub m rest else c # re_sub m cs)
      | None \<Rightarrow> c # re_sub m cs)"

text \<open>\<^verbatim>\<open>[^x]*x\<close>: everything up to and including the first \<open>x\<close>.\<close>

fun until_char :: "nat \<Rightarrow> ustring \<Rightarrow> ustring option" where
  "until_char x [] = None"
| "until_char x (c # cs) = (if c = x then Some cs else until_char x cs)"

text \<open>
  \<^verbatim>\<open>.*?xx\<close>: everything up to and including the first \<open>xx\<close>; without \<^verbatim>\<open>DOTALL\<close> the dot does
  not match a line feed, so the match fails at a line feed that comes before \<open>xx\<close>.
\<close>

fun until_double :: "nat \<Rightarrow> bool \<Rightarrow> ustring \<Rightarrow> ustring option" where
  "until_double x dotall [] = None"
| "until_double x dotall [c] = None"
| "until_double x dotall (c # d # rest) =
     (if c = x \<and> d = x then Some rest
      else if \<not> dotall \<and> c = 10 then None
      else until_double x dotall (d # rest))"

definition strip_prefix :: "ustring \<Rightarrow> ustring \<Rightarrow> ustring option" where
  "strip_prefix p text =
     (if take (length p) text = p then Some (drop (length p) text) else None)"

text \<open>\<^verbatim>\<open><[^>]+>\<close>\<close>

definition match_tag :: "ustring \<Rightarrow> ustring option" where
  "match_tag text =
     (case text of
        c # d # rest \<Rightarrow> if c = 60 \<and> d \<noteq> 62 then until_char 62 rest else None
      | _ \<Rightarrow> None)"

text \<open>\<^verbatim>\<open>\{\{.*?\}\}\<close> with \<^verbatim>\<open>re.DOTALL\<close>\<close>

definition match_template :: "ustring \<Rightarrow> ustring option" where
  "match_template text =
     (case text of
        c # d # rest \<Rightarrow> if c = 123 \<and> d = 123 then until_double 125 True rest else None
      | _ \<Rightarrow> None)"

text \<open>\<^verbatim>\<open>\[\[.*?\]\]\<close>\<close>

definition match_internal_link :: "ustring \<Rightarrow> ustring option" where
  "match_internal_link text =
     (case text of
        c # d # rest \<Rightarrow> if c = 91 \<and> d = 91 then until_double 93 False rest else None
      | _ \<Rightarrow> None)"

text \<open>
  \<^verbatim>\<open>\[https?:\/\/[^\]]*\]\<close>: the optional \<^verbatim>\<open>s\<close> is taken when it is there (without it the
  colon would have to match that \<^verbatim>\<open>s\<close>).
\<close>

definition match_external_link :: "ustring \<Rightarrow> ustring option" where
  "match_external_link text =
     (case strip_prefix (ustr ''[http'') text of
        None \<Rightarrow> None
      | Some r \<Rightarrow>
          (case strip_prefix (ustr ''://'')
                  (case strip_prefix (ustr ''s'') r of Some r' \<Rightarrow> r' | None \<Rightarrow> r) of
             None \<Rightarrow> None
           | Some r'' \<Rightarrow> until_char 93 r''))"

text \<open>The negated class of the fifth substitution, and \<^verbatim>\<open>\s+\<close>.\<close>

definition match_disallowed :: "ustring \<Rightarrow> ustring option" where
  "match_disallowed text =
     (case text of c # rest \<Rightarrow> if allowed_char c then None else Some rest | [] \<Rightarrow> None)"

definition match_spaces :: "ustring \<Rightarrow> ustring option" where
  "match_spaces text =
     (case text of
        c # rest \<Rightarrow> if is_space c then Some (dropWhile is_space rest) else None
      | [] \<Rightarrow> None)"

text \<open>\<^verbatim>\<open>str.strip()\<close> removes the white space at both ends.\<close>

definition py_strip :: "ustring \<Rightarrow> ustring" where
  "py_strip s = rev (dropWhile is_space (rev (dropWhile is_space s)))"

text \<open>
  \<^verbatim>\<open>
  def clean_text(text):
      text = re.sub(r"<[^>]+>", " ", text)
      text = re.sub(r"\{\{.*?\}\}", " ", text, flags=re.DOTALL)
      text = re.sub(r"\[\[.*?\]\]", " ", text)
      text = re.sub(r"\[https?:\/\/[^\]]*\]", " ", text)
      text = re.sub(r"[^0-9A-Za-z\u0600-\u06FF\u2D30-\u2D7F{U+2019}'{U+02BF}_\-\s]", " ", text)
      text = re.sub(r"\s+", " ", text).strip()
      return text
  \<close>
\<close>

definition clean_text :: "ustring \<Rightarrow> ustring" where
  "clean_text text =
     (let text = re_sub match_tag text;
          text = re_sub match_template text;
          text = re_sub match_internal_link text;
          text = re_sub match_external_link text;
          text = re_sub match_disallowed text;
          text = py_strip (re_sub match_spaces text)
      in text)"

section \<open>Files, console and the two entry points\<close>

text \<open>
  A run is described by what it leaves behind: the JSON files it has written, in order; the
  lines it has printed, in order; and the exception that ended it, if any.

  The input files are a map from paths: a path with no file is \<open>None\<close>; a file that can be
  opened and decoded is \<open>Readable\<close> with the text that reading it gives; and a path that
  exists but whose \<^verbatim>\<open>open\<close> or reading raises (a file that is not UTF-8, a directory, a file
  without read permission) is \<open>Unreadable\<close> with that exception. \<^verbatim>\<open>os.path.exists\<close> is true of
  both kinds of existing path. The scripts never read a file they write, so the input files
  do not change during a run. Creating the output directory and writing a file are taken to
  succeed.
\<close>

datatype file_state = Readable ustring | Unreadable error

datatype artifact =
    CountsJson "(ustring \<times> nat) list"
  | ProbsJson "(ustring \<times> real) list"
  | VocabJson "(ustring \<times> nat) list"
  | VocabRevJson "(nat \<times> ustring) list"

record trace =
  written :: "(ustring \<times> artifact) list"
  stdout :: "ustring list"
  raised :: "error option"

definition prints :: "ustring list \<Rightarrow> trace" where
  "prints ls = \<lparr>written = [], stdout = ls, raised = None\<rparr>"

definition writes :: "(ustring \<times> artifact) list \<Rightarrow> trace" where
  "writes fs = \<lparr>written = fs, stdout = [], raised = None\<rparr>"

definition raise :: "error \<Rightarrow> trace" where
  "raise e = \<lparr>written = [], stdout = [], raised = Some e\<rparr>"

text \<open>One statement after the other: the second runs only when the first has not raised.\<close>

definition seq_trace :: "trace \<Rightarrow> trace \<Rightarrow> trace" where
  "seq_trace t1 t2 =
     (case raised t1 of
        Some e \<Rightarrow> t1
      | None \<Rightarrow> \<lparr>written = written t1 @ written t2, stdout = stdout t1 @ stdout t2,
                 raised = raised t2\<rparr>)"

text \<open>A value that may raise, and the statements that use it.\<close>

definition bind_trace :: "error + 'a \<Rightarrow> ('a \<Rightarrow> trace) \<Rightarrow> trace" where
  "bind_trace x f = (case x of Inl e \<Rightarrow> raise e | Inr v \<Rightarrow> f v)"

text \<open>\<^verbatim>\<open>str(n)\<close> for the numbers in file names and messages.\<close>

fun str_nat :: "nat \<Rightarrow> ustring" where
  "str_nat n = (if n < 10 then [48 + n] else str_nat (n div 10) @ [48 + n mod 10])"

definition str_int :: "int \<Rightarrow> ustring" where
  "str_int n = (if n < 0 then 45 # str_nat (nat (- n)) else str_nat (nat n))"

text \<open>
  Lower-casing and the class \<^verbatim>\<open>\w\<close> depend on the Unicode tables of the Python run time; they
  are parameters.
\<close>

record unicode_tables =
  str_lower :: "ustring \<Rightarrow> ustring"
  is_word :: "nat \<Rightarrow> bool"

text \<open>\<^verbatim>\<open>str.split()\<close>: the maximal runs of characters that are not white space.\<close>

fun split_acc :: "ustring \<Rightarrow> ustring \<Rightarrow> ustring list" where
  "split_acc cur [] = (if cur = [] then [] else [cur])"
| "split_acc cur (c # cs) =
     (if is_space c then (if cur = [] then split_acc [] cs else cur # split_acc [] cs)
      else split_acc (cur @ [c]) cs)"

definition py_split :: "ustring \<Rightarrow> ustring list" where
  "py_split s = split_acc [] s"

text \<open>
  \<^verbatim>\<open>
  def tokenize(text):
      text = text.lower()
      tokens = text.split()
      return tokens
  \<close>
\<close>

definition tokenize :: "unicode_tables \<Rightarrow> ustring \<Rightarrow> ustring list" where
  "tokenize U text = py_split (str_lower U text)"

text \<open>
  \<^verbatim>\<open>re.findall(r'\w+|[^\w\s]', word)\<close>: the maximal runs of word characters, and every single
  character that is neither a word character nor white space, in order.
\<close>

fun findall_acc :: "(nat \<Rightarrow> bool) \<Rightarrow> ustring \<Rightarrow> ustring \<Rightarrow> ustring list" where
  "findall_acc w cur [] = (if cur = [] then [] else [cur])"
| "findall_acc w cur (c # cs) =
     (if w c then findall_acc w (cur @ [c]) cs
      else (if cur = [] then [] else [cur]) @ (if is_space c then [] else [[c]]) @
           findall_acc w [] cs)"

text \<open>
  \<^verbatim>\<open>
  def simple_tokenize(text):
      text = text.lower()
      words = text.split()
      tokens = []
      for word in words:
          parts = re.findall(r'\w+|[^\w\s]', word)
          tokens.extend(parts)
      return [t for t in tokens if t.strip()]
  \<close>
\<close>

definition simple_tokenize :: "unicode_tables \<Rightarrow> ustring \<Rightarrow> ustring list" where
  "simple_tokenize U text =
     (let text = str_lower U text;
          words = py_split text;
          tokens = concat (map (findall_acc (is_word U) []) words)
      in filter (\<lambda>t. py_strip t \<noteq> []) tokens)"

definition process_text_to_tokens :: "unicode_tables \<Rightarrow> ustring list \<Rightarrow> ustring list" where
  "process_text_to_tokens U sentences = concat (map (simple_tokenize U) sentences)"

text \<open>Iterating over an open text file gives its lines, each with its line feed.\<close>

fun lines_acc :: "ustring \<Rightarrow> ustring \<Rightarrow> ustring list" where
  "lines_acc cur [] = (if cur = [] then [] else [cur])"
| "lines_acc cur (c # cs) =
     (if c = 10 then (cur @ [10]) # lines_acc [] cs else lines_acc (cur @ [c]) cs)"

text \<open>
  The body of the loop of \<^verbatim>\<open>read_sentences_file\<close>: the stripped line, without what comes
  before its first tab; an empty line gives nothing.
\<close>

definition sentence_of_line :: "ustring \<Rightarrow> ustring list" where
  "sentence_of_line line =
     (let line = py_strip line
      in if line = [] then []
         else (case dropWhile (\<lambda>c. c \<noteq> 9) line of
                 [] \<Rightarrow> [line]
               | tab # rest \<Rightarrow> [rest]))"

text \<open>
  \<^verbatim>\<open>read_sentences_file\<close> returns the sentences, and prints a warning when the file is missing:
  \<^verbatim>\<open>
  except FileNotFoundError:
      print(f"Warning: File not found: {file_path}")
      return []
  \<close>
  That is its only handler: any other exception of \<^verbatim>\<open>open\<close> or of reading the lines leaves the
  function, and its callers do not catch it either.
\<close>

definition file_not_found_warning :: "ustring \<Rightarrow> ustring" where
  "file_not_found_warning file_path = ustr ''Warning: File not found: '' @ file_path"

definition read_sentences_file ::
  "(ustring \<rightharpoonup> file_state) \<Rightarrow> ustring \<Rightarrow> ustring list \<times> trace" where
  "read_sentences_file fs file_path =
     (case fs file_path of
        None \<Rightarrow> ([], prints [file_not_found_warning file_path])
      | Some (Unreadable e) \<Rightarrow> ([], raise e)
      | Some (Readable text) \<Rightarrow>
          (concat (map sentence_of_line (lines_acc [] text)), prints []))"

text \<open>
  \<^verbatim>\<open>process_language(lang, file_path)\<close>, statement by statement: the messages, the early return
  when there is no sentence, the tables, and then the files
  \<^verbatim>\<open>{n}gram.json\<close>, \<^verbatim>\<open>prob_{n}gram.json\<close>, \<^verbatim>\<open>vocab.json\<close>, \<^verbatim>\<open>vocab_rev.json\<close> and \<^verbatim>\<open>freq.json\<close>
  under \<^verbatim>\<open>ngrams_tp/{lang}\<close>.
\<close>

definition process_language ::
  "unicode_tables \<Rightarrow> (ustring \<rightharpoonup> file_state) \<Rightarrow> ustring \<Rightarrow> ustring \<Rightarrow> trace" where
  "process_language U fs lang file_path =
     seq_trace (prints [[10] @ ustr ''Processing '' @ lang @ ustr ''...''])
    (let (sentences, reading) = read_sentences_file fs file_path in
     seq_trace reading
    (if sentences = [] then prints [ustr ''No sentences found for '' @ lang]
     else
     seq_trace (prints [ustr ''Read '' @ str_nat (length sentences) @ ustr '' sentences''])
    (let tokens = process_text_to_tokens U sentences in
     seq_trace (prints [ustr ''Generated '' @ str_nat (length tokens) @ ustr '' tokens''])
    (let vocab = sort (remdups tokens);
         vocab_dict = zip vocab [0..<length vocab];
         vocab_rev = zip [0..<length vocab] vocab;
         output_dir = ustr ''ngrams_tp/'' @ lang in
     seq_trace (prints [ustr ''Generating unigrams...''])
    (bind_trace (dict_comprehension (\<lambda>(word, count). Inr (ngram_to_string [word], count))
                   (unigrams tokens) []) (\<lambda>ngram_freqs1.
     bind_trace (ngram_probs_1 tokens) (\<lambda>ngram_probs1.
     seq_trace (prints [ustr ''Generating bigrams...''])
    (bind_trace (string_keys (bigram_freq tokens)) (\<lambda>ngram_freqs2.
     bind_trace (ngram_probs_2 tokens) (\<lambda>ngram_probs2.
     seq_trace (prints [ustr ''Generating trigrams...''])
    (bind_trace (string_keys (trigram_freq tokens)) (\<lambda>ngram_freqs3.
     bind_trace (ngram_probs_3 tokens) (\<lambda>ngram_probs3.
     seq_trace (prints [ustr ''Generating quadrigrams...''])
    (bind_trace (string_keys (quadrigram_freq tokens)) (\<lambda>ngram_freqs4.
     bind_trace (ngram_probs_4 tokens) (\<lambda>ngram_probs4.
     seq_trace (prints [ustr ''Generating pentagrams...''])
    (bind_trace (string_keys (pentagram_freq tokens)) (\<lambda>ngram_freqs5.
     bind_trace (ngram_probs_5 tokens) (\<lambda>ngram_probs5.
     seq_trace (prints [ustr ''Saving n-gram frequencies...''])
    (seq_trace (writes
       [(output_dir @ ustr ''/1gram.json'', CountsJson ngram_freqs1),
        (output_dir @ ustr ''/2gram.json'', CountsJson ngram_freqs2),
        (output_dir @ ustr ''/3gram.json'', CountsJson ngram_freqs3),
        (output_dir @ ustr ''/4gram.json'', CountsJson ngram_freqs4),
        (output_dir @ ustr ''/5gram.json'', CountsJson ngram_freqs5)])
    (seq_trace (prints [ustr ''Saving probabilities...''])
    (seq_trace (writes
       [(output_dir @ ustr ''/prob_2gram.json'', ProbsJson ngram_probs2),
        (output_dir @ ustr ''/prob_3gram.json'', ProbsJson ngram_probs3),
        (output_dir @ ustr ''/prob_4gram.json'', ProbsJson ngram_probs4),
        (output_dir @ ustr ''/prob_5gram.json'', ProbsJson ngram_probs5)])
    (seq_trace (prints [ustr ''Saving vocabulary...''])
    (seq_trace (writes
       [(output_dir @ ustr ''/vocab.json'', VocabJson vocab_dict),
        (output_dir @ ustr ''/vocab_rev.json'', VocabRevJson vocab_rev),
        (output_dir @ ustr ''/freq.json'', CountsJson
           [(ustr ''unigrams'', length (unigrams tokens)),
            (ustr ''bigrams'', length (bigram_freq tokens)),
            (ustr ''trigrams'', length (trigram_freq tokens)),
            (ustr ''quadrigrams'', length (quadrigram_freq tokens)),
            (ustr ''pentagrams'', length (pentagram_freq tokens)),
            (ustr ''total_tokens'', length tokens),
            (ustr ''vocabulary_size'', length vocab)])])
    (prints
       [ustr ''Completed processing '' @ lang,
        ustr ''  - Vocabulary size: '' @ str_nat (length vocab),
        ustr ''  - Unigrams: '' @ str_nat (length (unigrams tokens)),
        ustr ''  - Bigrams: '' @ str_nat (length (bigram_freq tokens)),
        ustr ''  - Trigrams: '' @ str_nat (length (trigram_freq tokens)),
        ustr ''  - Quadrigrams: '' @ str_nat (length (quadrigram_freq tokens)),
        ustr ''  - Pentagrams: '' @ str_nat (length (pentagram_freq tokens))]
     )))))))))))))))))))))))))"




text \<open>
  \<^verbatim>\<open>process_corpus(input_file, output_prefix)\<close> of \<^verbatim>\<open>pipeline.py\<close>. The file is opened without
  any handler, so a missing file ends the run with \<^verbatim>\<open>FileNotFoundError\<close>, and an unreadable
  one with its exception. The two final
  \<^verbatim>\<open>for\<close> statements write \<^verbatim>\<open>{output_prefix}_{n}gram_counts.json\<close> for \<open>n\<close> from 1 to 5 and
  \<^verbatim>\<open>{output_prefix}_{n}gram_logproba.json\<close> for \<open>n\<close> from 2 to 5. In the three closing
  messages the letters beyond ASCII are given by their code points (233, 8211, 8594).
\<close>

fun save_counts_loop ::
  "ustring \<Rightarrow> (int \<times> (ustring list \<times> nat) list) list \<Rightarrow> int list \<Rightarrow> trace" where
  "save_counts_loop output_prefix counts [] = prints []"
| "save_counts_loop output_prefix counts (n # ns) =
     bind_trace (dict_index counts n) (\<lambda>counts_n.
     bind_trace (string_keys counts_n) (\<lambda>d.
     seq_trace
       (writes [(output_prefix @ ustr ''_'' @ str_int n @ ustr ''gram_counts.json'', CountsJson d)])
       (save_counts_loop output_prefix counts ns)))"

fun save_logproba_loop ::
  "ustring \<Rightarrow> (int \<times> (ustring list \<times> real) list) list \<Rightarrow> int list \<Rightarrow> trace" where
  "save_logproba_loop output_prefix probabilities [] = prints []"
| "save_logproba_loop output_prefix probabilities (n # ns) =
     bind_trace (dict_index probabilities n) (\<lambda>probabilities_n.
     bind_trace (string_keys probabilities_n) (\<lambda>d.
     seq_trace
       (writes [(output_prefix @ ustr ''_'' @ str_int n @ ustr ''gram_logproba.json'', ProbsJson d)])
       (save_logproba_loop output_prefix probabilities ns)))"

definition process_corpus ::
  "unicode_tables \<Rightarrow> (ustring \<rightharpoonup> file_state) \<Rightarrow> ustring \<Rightarrow> ustring \<Rightarrow> trace" where
  "process_corpus U fs input_file output_prefix =
     (case fs input_file of
        None \<Rightarrow> raise FileNotFoundError
      | Some (Unreadable e) \<Rightarrow> raise e
      | Some (Readable text) \<Rightarrow>
          (let text = clean_text text;
               tokens = tokenize U text in
           seq_trace (prints [ustr ''Total tokens: '' @ str_nat (length tokens)])
          (let counts = process_corpus_counts tokens in
           bind_trace (process_corpus_probabilities tokens) (\<lambda>probabilities.
           seq_trace (save_counts_loop output_prefix counts [1..5])
          (seq_trace (save_logproba_loop output_prefix probabilities [2..5])
          (prints [ustr '' Termin'' @ [233] @ ustr '' '' @ [8211] @ ustr '' fichiers g'' @ [233] @
                     ustr ''n'' @ [233] @ ustr ''r'' @ [233] @ ustr ''s :'',
                   ustr ''    - counts 1'' @ [8594] @ ustr ''5-gram'',
                   ustr ''    - log-probabilit'' @ [233] @ ustr ''s 2'' @ [8594] @ ustr ''5-gram'']))))))"

text \<open>The last line of \<^verbatim>\<open>pipeline.py\<close>: \<^verbatim>\<open>process_corpus("kabyle_corpus.txt", "kabyle")\<close>.\<close>

definition pipeline_main :: "unicode_tables \<Rightarrow> (ustring \<rightharpoonup> file_state) \<Rightarrow> trace" where
  "pipeline_main U fs = process_corpus U fs (ustr ''kabyle_corpus.txt'') (ustr ''kabyle'')"

section \<open>Slices, n-grams and counters\<close>

lemma take_min_length: "take (min n (length ys)) ys = take n ys"
  by (cases "n \<le> length ys") (simp_all add: min_def)

lemma py_slice_window:
  assumes n: "0 \<le> n"
  shows "py_slice xs (int i) (int i + n) = take (nat n) (drop i xs)"
proof (cases "i \<le> length xs")
  case True
  have a: "py_index (length xs) (int i) = i"
    using True by (simp add: py_index_def)
  have b: "py_index (length xs) (int i + n) = min (i + nat n) (length xs)"
    using n by (simp add: py_index_def nat_add_distrib)
  have c: "min (i + nat n) (length xs) - i = min (nat n) (length (drop i xs))"
    using True by (simp add: min_def)
  show ?thesis
    unfolding py_slice_def Let_def a b c by (rule take_min_length)
next
  case False
  then show ?thesis by (simp add: py_slice_def Let_def py_index_def)
qed

lemma ngram_prefix_butlast: "ngram_prefix g = butlast g"
proof (cases "g = []")
  case True
  then show ?thesis by (simp add: ngram_prefix_def py_slice_def py_index_def)
next
  case False
  then have "nat (int (length g) - 1) = length g - 1" by simp
  then show ?thesis
    by (simp add: ngram_prefix_def py_slice_def py_index_def butlast_conv_take max_def)
qed

lemma build_ngrams_conv:
  assumes n: "0 \<le> n"
  shows "build_ngrams xs n = map (\<lambda>i. take (nat n) (drop i xs)) [0..<length xs + 1 - nat n]"
proof -
  have "nat (int (length xs) - n + 1) = length xs + 1 - nat n" using n by linarith
  then show ?thesis using n
    by (simp add: build_ngrams_def py_range_def comp_def py_slice_window)
qed

lemma length_build_ngrams:
  "length (build_ngrams xs n) = nat (max 0 (int (length xs) - n + 1))"
  by (simp add: build_ngrams_def py_range_def max_def)

lemma build_ngrams_too_long: "int (length xs) < n \<Longrightarrow> build_ngrams xs n = []"
  by (simp add: build_ngrams_def py_range_def)

lemma build_ngrams_nth:
  assumes n: "0 \<le> n" and i: "i < length (build_ngrams xs n)"
  shows "build_ngrams xs n ! i = take (nat n) (drop i xs)"
    and "length (build_ngrams xs n ! i) = nat n"
proof -
  have i': "i < length xs + 1 - nat n"
    using i n by (simp add: build_ngrams_conv)
  show "build_ngrams xs n ! i = take (nat n) (drop i xs)"
    using i' n by (simp add: build_ngrams_conv)
  then show "length (build_ngrams xs n ! i) = nat n"
    using i' by simp
qed

lemma map_of_counter_update:
  "map_of (counter_update c xs) k =
     (if k \<in> set xs \<or> k \<in> fst ` set c then Some (dict_get c k 0 + count_list xs k) else None)"
proof (induction xs arbitrary: c)
  case Nil
  show ?case
  proof (cases "map_of c k")
    case None
    then show ?thesis by (simp add: map_of_eq_None_iff)
  next
    case (Some v)
    then have "k \<in> fst ` set c" using map_of_eq_None_iff[of c k] by simp
    then show ?thesis using Some by (simp add: dict_get_def)
  qed
next
  case (Cons x xs)
  have u: "map_of (AList.update x v c) k = (if k = x then Some v else map_of c k)" for v
    by (simp add: AList.update_conv')
  have d: "dict_get (AList.update x v c) k 0 = (if k = x then v else dict_get c k 0)" for v
    by (simp add: dict_get_def u)
  have step: "map_of (counter_update c (x # xs)) k =
      (if k \<in> set xs \<or> k \<in> fst ` set (AList.update x (dict_get c x 0 + 1) c)
       then Some (dict_get (AList.update x (dict_get c x 0 + 1) c) k 0 + count_list xs k)
       else None)"
    by (simp add: Cons.IH)
  show ?case unfolding step d
    by (cases "k = x") (simp_all add: AList.dom_update)
qed

lemma distinct_counter_update:
  "distinct (map fst c) \<Longrightarrow> distinct (map fst (counter_update c xs))"
  by (induction xs arbitrary: c) (simp_all add: AList.distinct_update)

lemma keys_counter_update:
  "fst ` set (counter_update c xs) = fst ` set c \<union> set xs"
  by (induction xs arbitrary: c) (simp_all add: AList.dom_update)

lemma map_of_Counter:
  "map_of (Counter xs) k = (if k \<in> set xs then Some (count_list xs k) else None)"
  by (simp add: Counter_def map_of_counter_update dict_get_def)

lemma distinct_Counter: "distinct (map fst (Counter xs))"
  by (simp add: Counter_def distinct_counter_update)

lemma keys_Counter: "fst ` set (Counter xs) = set xs"
  by (simp add: Counter_def keys_counter_update)

lemma Counter_items: "(k, c) \<in> set (Counter xs) \<longleftrightarrow> k \<in> set xs \<and> c = count_list xs k"
proof -
  have "(k, c) \<in> set (Counter xs) \<longleftrightarrow> map_of (Counter xs) k = Some c"
    using distinct_Counter[of xs] by simp
  then show ?thesis by (auto simp: map_of_Counter)
qed

lemma length_Counter: "length (Counter xs) = card (set xs)"
proof -
  have "length (Counter xs) = length (map fst (Counter xs))" by simp
  also have "\<dots> = card (set (map fst (Counter xs)))"
    using distinct_Counter[of xs] by (simp only: distinct_card)
  also have "\<dots> = card (set xs)" by (simp add: keys_Counter)
  finally show ?thesis .
qed

lemma Counter_empty_iff: "Counter xs = [] \<longleftrightarrow> xs = []"
  using keys_Counter[of xs] by (cases xs) auto

lemma dict_get_Counter: "dict_get (Counter xs) k 0 = count_list xs k"
  by (simp add: dict_get_def map_of_Counter)

lemma update_fresh: "k \<notin> fst ` set al \<Longrightarrow> AList.update k v al = al @ [(k, v)]"
  by (induction al) auto

lemma dict_comprehension_total:
  assumes "\<And>x. x \<in> set xs \<Longrightarrow> f x = Inr (key x, val x)"
    and "distinct (map key xs)"
    and "fst ` set d \<inter> key ` set xs = {}"
  shows "dict_comprehension f xs d = Inr (d @ map (\<lambda>x. (key x, val x)) xs)"
  using assms
proof (induction xs arbitrary: d)
  case Nil
  then show ?case by simp
next
  case (Cons x xs)
  have fx: "f x = Inr (key x, val x)" using Cons.prems(1) by simp
  have fresh: "key x \<notin> fst ` set d" using Cons.prems(3) by auto
  have "dict_comprehension f xs (d @ [(key x, val x)]) =
          Inr ((d @ [(key x, val x)]) @ map (\<lambda>x. (key x, val x)) xs)"
  proof (rule Cons.IH)
    show "\<And>y. y \<in> set xs \<Longrightarrow> f y = Inr (key y, val y)" using Cons.prems(1) by simp
    show "distinct (map key xs)" using Cons.prems(2) by simp
    show "fst ` set (d @ [(key x, val x)]) \<inter> key ` set xs = {}"
      using Cons.prems(2,3) by auto
  qed
  then show ?case by (simp add: fx update_fresh[OF fresh])
qed

lemma dict_copy_id: "distinct (map fst d) \<Longrightarrow> dict_copy d = Inr d"
proof -
  assume d: "distinct (map fst d)"
  have "dict_comprehension (\<lambda>(k, v). Inr (k, v)) d [] = Inr ([] @ map (\<lambda>x. (fst x, snd x)) d)"
    by (rule dict_comprehension_total) (use d in \<open>auto\<close>)
  then show ?thesis by (simp add: dict_copy_def)
qed

section \<open>Prefixes of grams of one token list\<close>

lemma butlast_window:
  "m \<le> length ys \<Longrightarrow> butlast (take m ys) = take (m - 1) ys"
  by (simp add: butlast_take)

lemma build_ngrams_prefix_list:
  assumes n: "1 \<le> n" and le: "n \<le> int (length xs)"
  shows "build_ngrams xs (n - 1) =
           map butlast (build_ngrams xs n) @ [take (nat n - 1) (drop (length xs + 1 - nat n) xs)]"
proof -
  let ?m = "nat n"
  have m: "1 \<le> ?m" "?m \<le> length xs" using n le by simp_all
  have n1: "nat (n - 1) = ?m - 1" using n by simp
  have up: "[0..<length xs + 1 - (?m - 1)] = [0..<length xs + 1 - ?m] @ [length xs + 1 - ?m]"
  proof -
    have "length xs + 1 - (?m - 1) = Suc (length xs + 1 - ?m)" using m by simp
    then show ?thesis by simp
  qed
  have bl: "map butlast (build_ngrams xs n) =
              map (\<lambda>i. take (?m - 1) (drop i xs)) [0..<length xs + 1 - ?m]"
  proof -
    have "butlast (take ?m (drop i xs)) = take (?m - 1) (drop i xs)"
      if "i < length xs + 1 - ?m" for i
      using that by (intro butlast_window) simp
    then show ?thesis using n by (simp add: build_ngrams_conv)
  qed
  have "build_ngrams xs (n - 1) = map (\<lambda>i. take (?m - 1) (drop i xs)) [0..<length xs + 1 - (?m - 1)]"
    using n by (simp add: build_ngrams_conv n1)
  also have "\<dots> = map (\<lambda>i. take (?m - 1) (drop i xs)) [0..<length xs + 1 - ?m] @
                     [take (?m - 1) (drop (length xs + 1 - ?m) xs)]"
    unfolding up by simp
  finally show ?thesis unfolding bl .
qed

lemma prefix_dominance:
  assumes n: "1 \<le> n"
  shows "count_list (build_ngrams xs n) g \<le> count_list (build_ngrams xs (n - 1)) (butlast g)"
proof (cases "n \<le> int (length xs)")
  case True
  have "count_list (build_ngrams xs n) g \<le> count_list (map butlast (build_ngrams xs n)) (butlast g)"
    by (rule count_list_map_ge)
  also have "\<dots> \<le> count_list (build_ngrams xs (n - 1)) (butlast g)"
    unfolding build_ngrams_prefix_list[OF n True] by simp
  finally show ?thesis .
next
  case False
  then show ?thesis by (simp add: build_ngrams_too_long)
qed

lemma count_list_pos_iff: "0 < count_list xs x \<longleftrightarrow> x \<in> set xs"
  using count_list_0_iff[of xs x] by (cases "count_list xs x") simp_all

lemma prefix_present:
  assumes n: "1 \<le> n" and g: "g \<in> set (build_ngrams xs n)"
  shows "butlast g \<in> set (build_ngrams xs (n - 1))"
proof -
  have "0 < count_list (build_ngrams xs n) g" using g by (simp add: count_list_pos_iff)
  then have "0 < count_list (build_ngrams xs (n - 1)) (butlast g)"
    using prefix_dominance[OF n, of xs g] by linarith
  then show ?thesis by (simp add: count_list_pos_iff)
qed

section \<open>N-gram construction\<close>

text \<open>
  Claim C6. For a token list of length \<open>L\<close> and an order \<open>n\<close>, \<open>build_ngrams\<close> returns
  \<open>max 0 (L - n + 1)\<close> grams; the \<open>i\<close>-th gram is the window of the \<open>n\<close> tokens from position
  \<open>i\<close> on (so the grams come in order of occurrence, repetitions kept); and for \<open>n > L\<close> the
  result is the empty list, not an error. The window reading is for orders \<open>n \<ge> 0\<close>; the
  pipeline only uses 1 to 5.
\<close>

theorem build_ngrams_windows:
  "length (build_ngrams tokens n) = nat (max 0 (int (length tokens) - n + 1)) \<and>
   (0 \<le> n \<longrightarrow>
      (\<forall>i < length (build_ngrams tokens n).
         build_ngrams tokens n ! i = take (nat n) (drop i tokens) \<and>
         length (build_ngrams tokens n ! i) = nat n)) \<and>
   (int (length tokens) < n \<longrightarrow> build_ngrams tokens n = [])"
  using build_ngrams_nth[of n _ tokens]
  by (simp add: length_build_ngrams build_ngrams_too_long)

theorem build_ngrams_windows_witness:
  "length (build_ngrams [''a'', ''b'', ''a'', ''b'', ''c''] 2) = 4 \<and>
   build_ngrams [''a'', ''b'', ''a'', ''b'', ''c''] 2 ! 2 = [''a'', ''b''] \<and>
   build_ngrams [''a'', ''b'', ''a'', ''b'', ''c''] 2 ! 3 = [''b'', ''c''] \<and>
   build_ngrams [''a''] 2 = []"
  using build_ngrams_windows[of "[''a'', ''b'', ''a'', ''b'', ''c'']" 2]
    build_ngrams_windows[of "[''a'']" 2]
  by simp

section \<open>Prefix dominance\<close>

lemma nltk_ngrams_build_ngrams: "0 < n \<Longrightarrow> nltk_ngrams xs n = build_ngrams xs (int n)"
  by (simp add: nltk_ngrams_def build_ngrams_conv)

lemma Counter_prefix_dominance:
  assumes n: "1 \<le> n" and g: "(g, c) \<in> set (Counter (build_ngrams tokens n))"
  shows "map_of (Counter (build_ngrams tokens (n - 1))) (butlast g) =
           Some (count_list (build_ngrams tokens (n - 1)) (butlast g)) \<and>
         c \<le> count_list (build_ngrams tokens (n - 1)) (butlast g)"
proof -
  have gin: "g \<in> set (build_ngrams tokens n)" and c: "c = count_list (build_ngrams tokens n) g"
    using g by (simp_all add: Counter_items)
  show ?thesis
    using prefix_present[OF n gin] prefix_dominance[OF n, of tokens g] c
    by (simp add: map_of_Counter)
qed

lemma build_ngrams_1: "build_ngrams xs 1 = map (\<lambda>x. [x]) xs"
proof (rule nth_equalityI)
  show "length (build_ngrams xs 1) = length (map (\<lambda>x. [x]) xs)"
    by (simp add: length_build_ngrams)
next
  fix i
  assume a: "i < length (build_ngrams xs 1)"
  then have i: "i < length xs" by (simp add: length_build_ngrams)
  have "build_ngrams xs 1 ! i = take (nat 1) (drop i xs)"
    by (rule build_ngrams_nth(1)[OF _ a]) simp
  also have "drop i xs = xs ! i # drop (Suc i) xs"
    using i by (simp add: Cons_nth_drop_Suc)
  finally show "build_ngrams xs 1 ! i = map (\<lambda>x. [x]) xs ! i"
    using i by simp
qed

lemma bigram_first_dominance:
  "count_list (build_ngrams xs 2) g \<le> count_list xs (hd g)"
proof -
  have "count_list (build_ngrams xs 2) g \<le> count_list (build_ngrams xs (2 - 1)) (butlast g)"
    by (rule prefix_dominance) simp
  also have "build_ngrams xs (2 - 1) = map (\<lambda>x. [x]) xs"
    by (simp add: build_ngrams_1)
  finally have le: "count_list (build_ngrams xs 2) g \<le> count_list (map (\<lambda>x. [x]) xs) (butlast g)" .
  show ?thesis
  proof (cases "g \<in> set (build_ngrams xs 2)")
    case True
    then obtain i where "g = take 2 (drop i xs)" "i < length xs + 1 - 2"
      by (auto simp: build_ngrams_conv)
    then have "length g = 2" by simp
    then obtain a b where ab: "g = [a, b]"
      by (metis (no_types, opaque_lifting) One_nat_def Suc_1 length_0_conv length_Suc_conv)
    have "count_list (map (\<lambda>x. [x]) xs) [a] = count_list xs a"
      using count_list_map_conv[of "\<lambda>x. [x]" xs a] by (simp add: inj_def)
    then show ?thesis using le ab by simp
  next
    case False
    then show ?thesis by simp
  qed
qed

text \<open>
  Claim C10. When the tables of orders \<open>n\<close> and \<open>n - 1\<close> (\<open>n \<ge> 2\<close>) are counted from the same
  token list, every gram of the order-\<open>n\<close> table has its prefix as a key of the order-\<open>(n - 1)\<close>
  table, with a count at least as large. This holds for the \<^verbatim>\<open>Counter\<close> tables of
  \<^verbatim>\<open>process_corpus\<close>, for the \<^verbatim>\<open>FreqDist\<close> tables of \<^verbatim>\<open>process_language\<close> from order 3 on, and
  for its bigram table against the unigram table, which is keyed by the first word.
\<close>

theorem prefix_dominance_tables:
  assumes "2 \<le> n"
  shows "((g, c) \<in> set (Counter (build_ngrams tokens (int n))) \<longrightarrow>
           (\<exists>c'. map_of (Counter (build_ngrams tokens (int n - 1))) (ngram_prefix g) = Some c' \<and>
                  c \<le> c')) \<and>
         (3 \<le> n \<and> (g, c) \<in> set (FreqDist (nltk_ngrams tokens n)) \<longrightarrow>
           (\<exists>c'. map_of (FreqDist (nltk_ngrams tokens (n - 1))) (ngram_prefix g) = Some c' \<and>
                  c \<le> c')) \<and>
         ((h, d) \<in> set (bigram_freq words) \<longrightarrow>
           (\<exists>d'. map_of (unigrams words) (hd h) = Some d' \<and> d \<le> d'))"
proof (intro conjI impI)
  assume "(g, c) \<in> set (Counter (build_ngrams tokens (int n)))"
  then show "\<exists>c'. map_of (Counter (build_ngrams tokens (int n - 1))) (ngram_prefix g) = Some c' \<and> c \<le> c'"
    using Counter_prefix_dominance[of "int n" g c tokens] assms
    by (simp add: ngram_prefix_butlast)
next
  assume a: "3 \<le> n \<and> (g, c) \<in> set (FreqDist (nltk_ngrams tokens n))"
  then have pos: "0 < n" "0 < n - 1" by simp_all
  have "(g, c) \<in> set (Counter (build_ngrams tokens (int n)))"
    using a by (simp add: FreqDist_def nltk_ngrams_build_ngrams[OF pos(1)])
  moreover have "nltk_ngrams tokens (n - 1) = build_ngrams tokens (int n - 1)"
  proof -
    have "int (n - 1) = int n - 1" using a by (simp add: of_nat_diff)
    then show ?thesis using nltk_ngrams_build_ngrams[OF pos(2), of tokens] by simp
  qed
  ultimately show "\<exists>c'. map_of (FreqDist (nltk_ngrams tokens (n - 1))) (ngram_prefix g) = Some c' \<and> c \<le> c'"
    using Counter_prefix_dominance[of "int n" g c tokens] assms
    by (simp add: ngram_prefix_butlast FreqDist_def)
next
  assume "(h, d) \<in> set (bigram_freq words)"
  then have hin: "h \<in> set (build_ngrams words 2)" and d: "d = count_list (build_ngrams words 2) h"
    by (simp_all add: bigram_freq_def FreqDist_def nltk_ngrams_build_ngrams Counter_items)
  have le: "d \<le> count_list words (hd h)"
    unfolding d by (rule bigram_first_dominance)
  have "0 < d" using hin d by (simp add: count_list_pos_iff)
  then have "hd h \<in> set words" using le count_list_pos_iff[of words "hd h"] by linarith
  then show "\<exists>d'. map_of (unigrams words) (hd h) = Some d' \<and> d \<le> d'"
    using le by (simp add: unigrams_def FreqDist_def map_of_Counter)
qed

theorem prefix_dominance_tables_witness:
  "(\<exists>c'. map_of (Counter (build_ngrams [''a'', ''b'', ''a'', ''b'', ''c''] 1)) [''a''] = Some c' \<and>
          (2::nat) \<le> c') \<and>
   (\<exists>c'. map_of (FreqDist (nltk_ngrams [''a'', ''b'', ''a'', ''b'', ''c''] 2)) [''a'', ''b''] = Some c' \<and>
          (1::nat) \<le> c') \<and>
   (\<exists>d'. map_of (unigrams [ustr ''a'', ustr ''b'', ustr ''a'', ustr ''b'', ustr ''c'']) (ustr ''a'') = Some d' \<and>
          (2::nat) \<le> d')"
proof -
  have c2: "Counter (build_ngrams [''a'', ''b'', ''a'', ''b'', ''c''] 2) =
              [([''a'', ''b''], 2), ([''b'', ''a''], 1), ([''b'', ''c''], 1)]"
    by (simp add: build_ngrams_conv upt_rec Counter_def dict_get_def)
  have f3: "FreqDist (nltk_ngrams [''a'', ''b'', ''a'', ''b'', ''c''] 3) =
              [([''a'', ''b'', ''a''], 1), ([''b'', ''a'', ''b''], 1), ([''a'', ''b'', ''c''], 1)]"
    by (simp add: nltk_ngrams_def upt_rec FreqDist_def Counter_def dict_get_def)
  have b2: "bigram_freq [ustr ''a'', ustr ''b'', ustr ''a'', ustr ''b'', ustr ''c''] =
              [([ustr ''a'', ustr ''b''], 2), ([ustr ''b'', ustr ''a''], 1), ([ustr ''b'', ustr ''c''], 1)]"
    by (simp add: bigram_freq_def nltk_ngrams_def upt_rec FreqDist_def Counter_def dict_get_def ustr_def)
  show ?thesis
    using prefix_dominance_tables[of 2 "[''a'', ''b'']" 2 "[''a'', ''b'', ''a'', ''b'', ''c'']"
        "[ustr ''a'', ustr ''b'']" 2 "[ustr ''a'', ustr ''b'', ustr ''a'', ustr ''b'', ustr ''c'']"]
      prefix_dominance_tables[of 3 "[''a'', ''b'', ''a'']" 1 "[''a'', ''b'', ''a'', ''b'', ''c'']"
        "[ustr ''a'', ustr ''b'']" 2 "[ustr ''a'', ustr ''b'', ustr ''a'', ustr ''b'', ustr ''c'']"]
    by (simp add: c2 f3 b2 ngram_prefix_butlast)
qed

section \<open>Policy A: add-one smoothed negative log-probability\<close>

lemma pipeline_prob_value:
  "0 < V \<Longrightarrow>
   pipeline_prob lower V g c = Inr (real (c + 1) / real (dict_get lower (butlast g) 0 + V))"
  by (simp add: pipeline_prob_def truediv_def ngram_prefix_butlast)

lemma pipeline_loop_ok:
  assumes "distinct (map fst items)"
    and "fst ` set acc \<inter> fst ` set items = {}"
    and "0 < V"
  shows "pipeline_probabilities_loop items lower V acc =
           Inr (acc @ map (\<lambda>(g, c). (g, - ln (real (c + 1) / real (dict_get lower (butlast g) 0 + V)))) items)"
  using assms
proof (induction items arbitrary: acc)
  case Nil
  then show ?case by simp
next
  case (Cons p items)
  obtain g c where p: "p = (g, c)" by (cases p)
  let ?d = "dict_get lower (butlast g) 0 + V"
  have pos: "0 < real (c + 1) / real ?d" using Cons.prems(3) by simp
  have fresh: "g \<notin> fst ` set acc" using Cons.prems(2) p by auto
  have disj: "fst ` set (acc @ [(g, - ln (real (c + 1) / real ?d))]) \<inter> fst ` set items = {}"
    using Cons.prems(1,2) p by auto
  have dist: "distinct (map fst items)" using Cons.prems(1) by simp
  have td: "pipeline_prob lower V g c = Inr (real (c + 1) / real ?d)"
    by (rule pipeline_prob_value[OF Cons.prems(3)])
  have lg: "py_log (real (c + 1) / real ?d) = Inr (ln (real (c + 1) / real ?d))"
    unfolding py_log_def by (rule if_not_P) (use pos in linarith)
  have "pipeline_probabilities_loop (p # items) lower V acc =
        pipeline_probabilities_loop items lower V (acc @ [(g, - ln (real (c + 1) / real ?d))])"
    unfolding p
    by (simp only: pipeline_probabilities_loop.simps td lg sum.case update_fresh[OF fresh])
  also have "\<dots> = Inr ((acc @ [(g, - ln (real (c + 1) / real ?d))]) @
       map (\<lambda>(g, c). (g, - ln (real (c + 1) / real (dict_get lower (butlast g) 0 + V)))) items)"
    by (rule Cons.IH[OF dist disj Cons.prems(3)])
  finally show ?case by (simp add: p)
qed

lemma pipeline_loop_zero:
  "pipeline_probabilities_loop (p # items) [] 0 acc = Inl ZeroDivisionError"
  by (cases p) (simp add: pipeline_prob_def dict_get_def truediv_def Let_def)

text \<open>
  The whole of \<^verbatim>\<open>calculate_probabilities\<close> on two dicts: it raises exactly when there is a
  gram to score and the lower table is empty (then \<open>prefix_count + vocab_size = 0\<close>), and
  otherwise scores every gram by the smoothed formula.
\<close>

lemma pipeline_calculate_probabilities_char:
  assumes "distinct (map fst items)"
  shows "pipeline_calculate_probabilities items lower =
           (if items \<noteq> [] \<and> lower = [] then Inl ZeroDivisionError
            else Inr (map (\<lambda>(g, c). (g, - ln (real (c + 1) /
                            real (dict_get lower (butlast g) 0 + length lower)))) items))"
proof (cases "lower = []")
  case True
  then show ?thesis
    by (cases items) (simp_all add: pipeline_calculate_probabilities_def pipeline_loop_zero)
next
  case False
  then have V: "0 < length lower" by simp
  have "pipeline_probabilities_loop items lower (length lower) [] =
          Inr ([] @ map (\<lambda>(g, c). (g, - ln (real (c + 1) / real (dict_get lower (butlast g) 0 + length lower)))) items)"
    by (rule pipeline_loop_ok[OF assms _ V]) simp
  then show ?thesis using False
    by (simp add: pipeline_calculate_probabilities_def)
qed

lemma map_of_map_items:
  assumes "distinct (map fst items)" and "(g, c) \<in> set items"
  shows "map_of (map (\<lambda>(g, c). (g, f g c)) items) g = Some (f g c)"
proof -
  have "map_of (map (\<lambda>(g, c). (g, f g c)) items) g = map_option (f g) (map_of items g)"
    by (induction items) auto
  then show ?thesis using assms by simp
qed

section \<open>Policy A on the tables of one token list\<close>

lemma Counter_lower_nonempty:
  assumes n: "1 \<le> n" and ne: "Counter (build_ngrams tokens n) \<noteq> []"
  shows "Counter (build_ngrams tokens (n - 1)) \<noteq> []"
proof -
  from ne obtain g where "g \<in> set (build_ngrams tokens n)"
    by (cases "build_ngrams tokens n") (auto simp: Counter_empty_iff)
  then have "butlast g \<in> set (build_ngrams tokens (n - 1))" by (rule prefix_present[OF n])
  then show ?thesis by (auto simp: Counter_empty_iff)
qed

lemma pipeline_tables_ok:
  assumes n: "1 \<le> n"
  shows "pipeline_calculate_probabilities (Counter (build_ngrams tokens n))
           (Counter (build_ngrams tokens (n - 1))) =
         Inr (map (\<lambda>(g, c). (g, - ln (real (c + 1) /
                real (count_list (build_ngrams tokens (n - 1)) (butlast g) +
                      card (set (build_ngrams tokens (n - 1)))))))
              (Counter (build_ngrams tokens n)))"
proof (cases "Counter (build_ngrams tokens n) = []")
  case True
  then show ?thesis
    by (simp add: pipeline_calculate_probabilities_def)
next
  case False
  then have "Counter (build_ngrams tokens (n - 1)) \<noteq> []"
    by (rule Counter_lower_nonempty[OF n])
  then show ?thesis
    by (simp add: pipeline_calculate_probabilities_char[OF distinct_Counter]
          dict_get_Counter length_Counter)
qed

lemma map_fst_map_items: "map fst (map (\<lambda>(g, c). (g, f g c)) items) = map fst items"
  by (induction items) auto

lemma smoothed_score_nonneg:
  assumes "c \<le> pc" and "0 < V"
  shows "0 \<le> - ln (real (c + 1) / real (pc + V))"
proof -
  have "real (c + 1) \<le> real (pc + V)" using assms by (simp del: of_nat_add of_nat_Suc)
  moreover have "0 < real (pc + V)" using assms by simp
  ultimately have "real (c + 1) / real (pc + V) \<le> 1" by (simp del: of_nat_add of_nat_Suc)
  moreover have "0 < real (c + 1) / real (pc + V)" using assms by simp
  ultimately have "ln (real (c + 1) / real (pc + V)) \<le> 0" by (simp only: ln_le_zero_iff)
  then show ?thesis by simp
qed

lemma pipeline_prob_pos:
  "pipeline_prob lower V g c = Inr prob \<Longrightarrow> 0 < prob"
  by (auto simp: pipeline_prob_def truediv_def Let_def split: if_splits)

lemma upto_2_5: "[2..5] = [2, 3, 4, 5::int]"
  by (simp add: upto_rec1)

lemma upto_1_5: "[1..5] = [1, 2, 3, 4, 5::int]"
  by (simp add: upto_rec1)

lemma process_corpus_counts_index:
  "n \<in> {1..5} \<Longrightarrow>
   dict_index (process_corpus_counts tokens) n = Inr (Counter (build_ngrams tokens n))"
proof -
  assume "n \<in> {1..5}"
  then have "n = 1 \<or> n = 2 \<or> n = 3 \<or> n = 4 \<or> n = 5" by auto
  then show ?thesis
    unfolding process_corpus_counts_def upto_1_5 Counter_def dict_index_def by auto
qed

lemma process_corpus_step:
  assumes "n \<in> {2..5}"
  shows "process_corpus_probabilities_loop (n # ns) (process_corpus_counts tokens) acc =
         process_corpus_probabilities_loop ns (process_corpus_counts tokens)
           (AList.update n
              (map (\<lambda>(g, c). (g, - ln (real (c + 1) /
                      real (count_list (build_ngrams tokens (n - 1)) (butlast g) +
                            card (set (build_ngrams tokens (n - 1)))))))
                   (Counter (build_ngrams tokens n))) acc)"
proof -
  have a: "dict_index (process_corpus_counts tokens) n = Inr (Counter (build_ngrams tokens n))"
    by (rule process_corpus_counts_index) (use assms in simp)
  have b: "dict_index (process_corpus_counts tokens) (n - 1) = Inr (Counter (build_ngrams tokens (n - 1)))"
    by (rule process_corpus_counts_index) (use assms in simp)
  have c: "dict_copy (Counter (build_ngrams tokens (n - 1))) = Inr (Counter (build_ngrams tokens (n - 1)))"
    by (rule dict_copy_id) (rule distinct_Counter)
  have d: "pipeline_calculate_probabilities (Counter (build_ngrams tokens n))
             (Counter (build_ngrams tokens (n - 1))) =
           Inr (map (\<lambda>(g, c). (g, - ln (real (c + 1) /
                      real (count_list (build_ngrams tokens (n - 1)) (butlast g) +
                            card (set (build_ngrams tokens (n - 1)))))))
                   (Counter (build_ngrams tokens n)))"
    by (rule pipeline_tables_ok) (use assms in simp)
  show ?thesis
    by (simp only: process_corpus_probabilities_loop.simps a b c d sum.case)
qed

lemma process_corpus_probabilities_char:
  "process_corpus_probabilities tokens =
     Inr (map (\<lambda>n. (n, map (\<lambda>(g, c). (g, - ln (real (c + 1) /
                      real (count_list (build_ngrams tokens (n - 1)) (butlast g) +
                            card (set (build_ngrams tokens (n - 1)))))))
                   (Counter (build_ngrams tokens n)))) [2, 3, 4, 5])"
proof -
  have in25: "(2::int) \<in> {2..5}" "(3::int) \<in> {2..5}" "(4::int) \<in> {2..5}" "(5::int) \<in> {2..5}"
    by simp_all
  show ?thesis
    unfolding process_corpus_probabilities_def upto_2_5
      process_corpus_step[OF in25(1)] process_corpus_step[OF in25(2)]
      process_corpus_step[OF in25(3)] process_corpus_step[OF in25(4)]
    by simp
qed

text \<open>
  Claim C1. For every gram \<open>g\<close> with count \<open>c\<close> in the order-\<open>n\<close> table, the estimator returns
  the table in which \<open>g\<close> has the score \<open>- ln ((c + 1) / (count of the prefix + V))\<close>, where the
  prefix is \<open>g\<close> without its last token, its count is looked up in the order-\<open>(n - 1)\<close> table
  with default 0, and \<open>V\<close> is the number of distinct keys of that table. First for
  \<^verbatim>\<open>calculate_probabilities\<close> on any two dicts (keys distinct) of which the lower has a key;
  then for \<^verbatim>\<open>process_corpus\<close>, where \<^verbatim>\<open>counts[n]\<close> and \<^verbatim>\<open>counts[n - 1]\<close> are counted from one
  token list and \<open>n\<close> runs from 2 to 5, with no side condition. The instance below is the
  example of a gram of count 2 with a prefix of count 2 and \<open>V = 3\<close>: probability \<open>3 / 5\<close>,
  score \<open>- ln (3 / 5)\<close>.
\<close>

theorem policy_A_score:
  "(distinct (map fst ngram_counts) \<and> distinct (map fst lower_counts) \<and> lower_counts \<noteq> [] \<and>
    (g, c) \<in> set ngram_counts \<longrightarrow>
      (\<exists>probs. pipeline_calculate_probabilities ngram_counts lower_counts = Inr probs \<and>
         map_of probs g =
           Some (- ln (real (c + 1) /
                       real (dict_get lower_counts (ngram_prefix g) 0 +
                             card (fst ` set lower_counts)))))) \<and>
   (n \<in> {2..5} \<and> (h, k) \<in> set (Counter (build_ngrams tokens n)) \<longrightarrow>
      dict_index (process_corpus_counts tokens) n = Inr (Counter (build_ngrams tokens n)) \<and>
      dict_index (process_corpus_counts tokens) (n - 1) =
        Inr (Counter (build_ngrams tokens (n - 1))) \<and>
      (\<exists>tables probs. process_corpus_probabilities tokens = Inr tables \<and>
         map_of tables n = Some probs \<and>
         map_of probs h =
           Some (- ln (real (k + 1) /
                       real (dict_get (Counter (build_ngrams tokens (n - 1))) (ngram_prefix h) 0 +
                             card (fst ` set (Counter (build_ngrams tokens (n - 1)))))))))"
proof (intro conjI impI)
  assume a: "distinct (map fst ngram_counts) \<and> distinct (map fst lower_counts) \<and>
             lower_counts \<noteq> [] \<and> (g, c) \<in> set ngram_counts"
  then have d1: "distinct (map fst ngram_counts)" and d2: "distinct (map fst lower_counts)"
    and ne: "lower_counts \<noteq> []" and gc: "(g, c) \<in> set ngram_counts" by simp_all
  have V: "card (fst ` set lower_counts) = length lower_counts"
    using d2 distinct_card[of "map fst lower_counts"] by simp
  have "pipeline_calculate_probabilities ngram_counts lower_counts =
          Inr (map (\<lambda>(g, c). (g, - ln (real (c + 1) /
                 real (dict_get lower_counts (butlast g) 0 + length lower_counts)))) ngram_counts)"
    using ne by (simp add: pipeline_calculate_probabilities_char[OF d1])
  moreover have "map_of (map (\<lambda>(g, c). (g, - ln (real (c + 1) /
                 real (dict_get lower_counts (butlast g) 0 + length lower_counts)))) ngram_counts) g =
          Some (- ln (real (c + 1) / real (dict_get lower_counts (butlast g) 0 + length lower_counts)))"
    by (rule map_of_map_items[OF d1 gc])
  ultimately show "\<exists>probs. pipeline_calculate_probabilities ngram_counts lower_counts = Inr probs \<and>
         map_of probs g =
           Some (- ln (real (c + 1) /
                       real (dict_get lower_counts (ngram_prefix g) 0 +
                             card (fst ` set lower_counts))))"
    by (simp add: V ngram_prefix_butlast)
next
  assume b: "n \<in> {2..5} \<and> (h, k) \<in> set (Counter (build_ngrams tokens n))"
  then have n: "n \<in> {2..5}" and hk: "(h, k) \<in> set (Counter (build_ngrams tokens n))" by simp_all
  show "dict_index (process_corpus_counts tokens) n = Inr (Counter (build_ngrams tokens n))"
    by (rule process_corpus_counts_index) (use n in simp)
  show "dict_index (process_corpus_counts tokens) (n - 1) =
          Inr (Counter (build_ngrams tokens (n - 1)))"
    by (rule process_corpus_counts_index) (use n in simp)
  let ?P = "\<lambda>n. map (\<lambda>(g, c). (g, - ln (real (c + 1) /
                      real (count_list (build_ngrams tokens (n - 1)) (butlast g) +
                            card (set (build_ngrams tokens (n - 1)))))))
                   (Counter (build_ngrams tokens n))"
  have "n = 2 \<or> n = 3 \<or> n = 4 \<or> n = 5" using n by auto
  then have tbl: "map_of (map (\<lambda>n. (n, ?P n)) [2, 3, 4, 5]) n = Some (?P n)" by auto
  have val: "map_of (?P n) h =
        Some (- ln (real (k + 1) /
                      real (count_list (build_ngrams tokens (n - 1)) (butlast h) +
                            card (set (build_ngrams tokens (n - 1))))))"
    by (rule map_of_map_items[OF distinct_Counter hk])
  have "map_of (?P n) h =
        Some (- ln (real (k + 1) /
                    real (dict_get (Counter (build_ngrams tokens (n - 1))) (ngram_prefix h) 0 +
                          card (fst ` set (Counter (build_ngrams tokens (n - 1)))))))"
    unfolding val by (simp only: dict_get_Counter keys_Counter ngram_prefix_butlast)
  then show "\<exists>tables probs. process_corpus_probabilities tokens = Inr tables \<and>
         map_of tables n = Some probs \<and>
         map_of probs h =
           Some (- ln (real (k + 1) /
                       real (dict_get (Counter (build_ngrams tokens (n - 1))) (ngram_prefix h) 0 +
                             card (fst ` set (Counter (build_ngrams tokens (n - 1)))))))"
    using tbl process_corpus_probabilities_char[of tokens] by blast
qed

theorem policy_A_score_witness:
  "(\<exists>probs. pipeline_calculate_probabilities
              [([''a'', ''b''], 2), ([''b'', ''a''], 1), ([''b'', ''c''], 1)]
              [([''a''], 2), ([''b''], 2), ([''c''], 1)] = Inr probs \<and>
           map_of probs [''a'', ''b''] = Some (- ln (3 / 5))) \<and>
   (\<exists>tables probs. process_corpus_probabilities [''a'', ''b'', ''a'', ''b'', ''c''] = Inr tables \<and>
           map_of tables 2 = Some probs \<and> map_of probs [''a'', ''b''] = Some (- ln (3 / 5)))"
proof -
  have c2: "Counter (build_ngrams [''a'', ''b'', ''a'', ''b'', ''c''] 2) =
              [([''a'', ''b''], 2), ([''b'', ''a''], 1), ([''b'', ''c''], 1)]"
    by (simp add: build_ngrams_conv upt_rec Counter_def dict_get_def)
  have c1: "Counter (build_ngrams [''a'', ''b'', ''a'', ''b'', ''c''] 1) =
              [([''a''], 2), ([''b''], 2), ([''c''], 1)]"
    by (simp add: build_ngrams_conv upt_rec Counter_def dict_get_def)
  have c1': "Counter (build_ngrams [''a'', ''b'', ''a'', ''b'', ''c''] (2 - 1)) =
              [([''a''], 2), ([''b''], 2), ([''c''], 1)]"
    using c1 by simp
  show ?thesis
    using policy_A_score[where ngram_counts = "[([''a'', ''b''], 2), ([''b'', ''a''], 1), ([''b'', ''c''], 1)]"
        and lower_counts = "[([''a''], 2), ([''b''], 2), ([''c''], 1)]"
        and g = "[''a'', ''b'']" and c = 2 and n = 2 and h = "[''a'', ''b'']" and k = 2
        and tokens = "[''a'', ''b'', ''a'', ''b'', ''c'']"]
    unfolding c2 c1'
    by (simp add: dict_get_def ngram_prefix_butlast)
qed

text \<open>
  Claim C3, as amended. Every probability the Policy A estimator computes is strictly
  positive, whatever the two tables are (when the lower table is empty and there is a gram to
  score, the division raises and no probability is computed). When the table of order
  \<open>n \<ge> 2\<close> and the lower one are counted from the same token list, the estimator returns a
  table with a score for every gram, and every score is non-negative.
\<close>

theorem policy_A_positive:
  "(pipeline_prob lower_counts vocab_size g c = Inr prob \<longrightarrow> 0 < prob) \<and>
   (2 \<le> n \<longrightarrow>
      (\<exists>probs. pipeline_calculate_probabilities (Counter (build_ngrams tokens n))
                  (Counter (build_ngrams tokens (n - 1))) = Inr probs \<and>
               fst ` set probs = set (build_ngrams tokens n) \<and>
               (\<forall>(h, s) \<in> set probs. 0 \<le> s)))"
proof (intro conjI impI)
  assume "pipeline_prob lower_counts vocab_size g c = Inr prob"
  then show "0 < prob" by (rule pipeline_prob_pos)
next
  assume n: "2 \<le> n"
  then have n1: "1 \<le> n" by simp
  let ?lower = "build_ngrams tokens (n - 1)"
  let ?probs = "map (\<lambda>(g, c). (g, - ln (real (c + 1) /
                  real (count_list ?lower (butlast g) + card (set ?lower)))))
                (Counter (build_ngrams tokens n))"
  have keys: "fst ` set ?probs = set (build_ngrams tokens n)"
  proof -
    have "fst ` set ?probs = set (map fst ?probs)" by (simp only: set_map)
    also have "\<dots> = set (map fst (Counter (build_ngrams tokens n)))"
      by (simp only: map_fst_map_items)
    also have "\<dots> = set (build_ngrams tokens n)"
      using keys_Counter[of "build_ngrams tokens n"] by (simp only: set_map)
    finally show ?thesis .
  qed
  have nonneg: "0 \<le> s" if "(h, s) \<in> set ?probs" for h s
  proof -
    from that obtain c where hc: "(h, c) \<in> set (Counter (build_ngrams tokens n))"
      and s: "s = - ln (real (c + 1) / real (count_list ?lower (butlast h) + card (set ?lower)))"
      by auto
    have hin: "h \<in> set (build_ngrams tokens n)" and c: "c = count_list (build_ngrams tokens n) h"
      using hc by (simp_all add: Counter_items)
    have le: "c \<le> count_list ?lower (butlast h)"
      unfolding c by (rule prefix_dominance[OF n1])
    have "butlast h \<in> set ?lower" by (rule prefix_present[OF n1 hin])
    then have "0 < card (set ?lower)" by (auto simp: card_gt_0_iff)
    then show ?thesis unfolding s using le by (intro smoothed_score_nonneg)
  qed
  show "\<exists>probs. pipeline_calculate_probabilities (Counter (build_ngrams tokens n))
                  (Counter (build_ngrams tokens (n - 1))) = Inr probs \<and>
               fst ` set probs = set (build_ngrams tokens n) \<and>
               (\<forall>(h, s) \<in> set probs. 0 \<le> s)"
    unfolding pipeline_tables_ok[OF n1] using keys nonneg by blast
qed

theorem policy_A_positive_witness:
  "0 < (3 / 5 :: real) \<and>
   pipeline_calculate_probabilities
     (Counter (build_ngrams [''a'', ''b'', ''a'', ''b'', ''c''] 2))
     (Counter (build_ngrams [''a'', ''b'', ''a'', ''b'', ''c''] 1)) =
     Inr [([''a'', ''b''], - ln (3 / 5)), ([''b'', ''a''], - ln (2 / 5)), ([''b'', ''c''], - ln (2 / 5))] \<and>
   0 \<le> - ln (3 / 5 :: real) \<and> 0 \<le> - ln (2 / 5 :: real)"
proof -
  have c2: "Counter (build_ngrams [''a'', ''b'', ''a'', ''b'', ''c''] 2) =
              [([''a'', ''b''], 2), ([''b'', ''a''], 1), ([''b'', ''c''], 1)]"
    by (simp add: build_ngrams_conv upt_rec Counter_def dict_get_def)
  have c1: "Counter (build_ngrams [''a'', ''b'', ''a'', ''b'', ''c''] 1) =
              [([''a''], 2), ([''b''], 2), ([''c''], 1)]"
    by (simp add: build_ngrams_conv upt_rec Counter_def dict_get_def)
  have run: "pipeline_calculate_probabilities
       [([''a'', ''b''], 2), ([''b'', ''a''], 1), ([''b'', ''c''], 1)]
       [([''a''], 2), ([''b''], 2), ([''c''], 1)] =
     Inr [([''a'', ''b''], - ln (3 / 5)), ([''b'', ''a''], - ln (2 / 5)), ([''b'', ''c''], - ln (2 / 5))]"
    by (simp add: pipeline_calculate_probabilities_def pipeline_prob_def truediv_def py_log_def
          dict_get_def ngram_prefix_butlast)
  show ?thesis
    using policy_A_positive[of "[([''a''], 2), ([''b''], 2), ([''c''], 1)]" 3 "[''a'', ''b'']" 2
        "3 / 5" 2 "[''a'', ''b'', ''a'', ''b'', ''c'']"]
    by (simp add: run[folded c2 c1] pipeline_prob_def truediv_def dict_get_def ngram_prefix_butlast)
qed

text \<open>
  For tables that are not counted from one token list the score can be negative: a bigram of
  count 5 whose prefix is absent from a lower table with one key has probability
  \<open>6 / 1\<close> and score \<open>- ln 6\<close>.
\<close>

theorem policy_A_negative_score_counterexample:
  "pipeline_calculate_probabilities [([''a'', ''b''], 5)] [([''x''], 1)] =
     Inr [([''a'', ''b''], - ln 6)] \<and> - ln (6 :: real) < 0"
  by (simp add: pipeline_calculate_probabilities_def pipeline_prob_def truediv_def py_log_def
        dict_get_def ngram_prefix_butlast)

lemma policy_A_empty_lower_raises:
  "pipeline_calculate_probabilities [([''a'', ''b''], 1)] [] = Inl ZeroDivisionError"
  by (simp add: pipeline_calculate_probabilities_def pipeline_loop_zero)

section \<open>Policy B: relative frequencies\<close>

lemma set_update_cases:
  "p \<in> set (AList.update k v d) \<Longrightarrow> p = (k, v) \<or> p \<in> set d"
  by (induction d) (auto split: if_splits)

lemma dict_comprehension_values:
  assumes "dict_comprehension f xs d = Inr r"
    and "\<And>k v. (k, v) \<in> set d \<Longrightarrow> P v"
    and "\<And>x k v. x \<in> set xs \<Longrightarrow> f x = Inr (k, v) \<Longrightarrow> P v"
  shows "(k, v) \<in> set r \<Longrightarrow> P v"
  using assms
proof (induction xs arbitrary: d)
  case Nil
  then show ?case by simp
next
  case (Cons x xs)
  from Cons.prems(2) obtain k' v' where fx: "f x = Inr (k', v')"
    and rest: "dict_comprehension f xs (AList.update k' v' d) = Inr r"
    by (auto split: sum.splits)
  have Pv': "P v'" using Cons.prems(4)[of x k' v'] fx by simp
  show ?case
  proof (rule Cons.IH[OF Cons.prems(1) rest])
    fix a b
    assume "(a, b) \<in> set (AList.update k' v' d)"
    then have "(a, b) = (k', v') \<or> (a, b) \<in> set d" by (rule set_update_cases)
    then show "P b" using Pv' Cons.prems(3) by auto
  next
    fix y a b
    assume "y \<in> set xs" "f y = Inr (a, b)"
    then show "P b" using Cons.prems(4)[of y a b] by simp
  qed
qed

lemma dict_comprehension_succeeds:
  "(\<And>x. x \<in> set xs \<Longrightarrow> \<exists>kv. f x = Inr kv) \<Longrightarrow> \<exists>r. dict_comprehension f xs d = Inr r"
proof (induction xs arbitrary: d)
  case Nil
  then show ?case by simp
next
  case (Cons x xs)
  from Cons.prems[of x] obtain k v where fx: "f x = Inr (k, v)" by auto
  have "\<exists>r. dict_comprehension f xs (AList.update k v d) = Inr r"
    by (rule Cons.IH) (use Cons.prems in simp)
  then show ?case by (simp add: fx)
qed

lemma string_keys_values:
  "\<exists>r. string_keys d = Inr r \<and> (\<forall>(k, v) \<in> set r. v \<in> snd ` set d)"
proof -
  obtain r where r: "string_keys d = Inr r"
    unfolding string_keys_def
    using dict_comprehension_succeeds[of d "\<lambda>(ngram, v). Inr (ngram_to_string ngram, v)" "[]"]
    by (auto split: prod.splits)
  have "v \<in> snd ` set d" if "(k, v) \<in> set r" for k v
  proof (rule dict_comprehension_values[OF r[unfolded string_keys_def] _ _ that])
    show "\<And>k v. (k, v) \<in> set [] \<Longrightarrow> v \<in> snd ` set d" by simp
    show "\<And>x k v. x \<in> set d \<Longrightarrow> (case x of (ngram, v) \<Rightarrow> Inr (ngram_to_string ngram, v)) = Inr (k, v)
            \<Longrightarrow> v \<in> snd ` set d"
      by (force split: prod.splits)
  qed
  then show ?thesis using r by auto
qed

lemma ngrams_tp_step:
  "ngrams_tp_probabilities_loop ((g, c) # items) freq prev acc =
     ngrams_tp_probabilities_loop items freq prev
       (AList.update g (spec_policy_B_prob freq prev g c) acc)"
proof -
  define t where "t = sum_list (map snd freq)"
  define pc where "pc = dict_get prev (butlast g) 0"
  show ?thesis
    unfolding ngrams_tp_probabilities_loop.simps spec_policy_B_prob_def Let_def
      ngram_prefix_butlast t_def[symmetric] pc_def[symmetric]
    by (simp add: truediv_def)
qed

lemma ngrams_tp_loop_ok:
  assumes "distinct (map fst items)" and "fst ` set acc \<inter> fst ` set items = {}"
  shows "ngrams_tp_probabilities_loop items freq prev acc =
           Inr (acc @ map (\<lambda>(g, c). (g, spec_policy_B_prob freq prev g c)) items)"
  using assms
proof (induction items arbitrary: acc)
  case Nil
  then show ?case by simp
next
  case (Cons p items)
  obtain g c where p: "p = (g, c)" by (cases p)
  have fresh: "g \<notin> fst ` set acc" using Cons.prems(2) p by auto
  have "ngrams_tp_probabilities_loop (p # items) freq prev acc =
          ngrams_tp_probabilities_loop items freq prev (acc @ [(g, spec_policy_B_prob freq prev g c)])"
    unfolding p by (simp only: ngrams_tp_step update_fresh[OF fresh])
  also have "\<dots> = Inr ((acc @ [(g, spec_policy_B_prob freq prev g c)]) @
                      map (\<lambda>(g, c). (g, spec_policy_B_prob freq prev g c)) items)"
    by (rule Cons.IH) (use Cons.prems p in auto)
  finally show ?case by (simp add: p)
qed

lemma ngrams_tp_loop_succeeds:
  "\<exists>probs. ngrams_tp_probabilities_loop items freq prev acc = Inr probs"
proof (induction items arbitrary: acc)
  case Nil
  then show ?case by simp
next
  case (Cons p items)
  obtain g c where p: "p = (g, c)" by (cases p)
  show ?case unfolding p ngrams_tp_step by (rule Cons.IH)
qed

lemma ngrams_tp_calculate_probabilities_char:
  assumes "distinct (map fst freq)"
  shows "ngrams_tp_calculate_probabilities freq prev =
           Inr (map (\<lambda>(g, c). (g, spec_policy_B_prob freq prev g c)) freq)"
  using ngrams_tp_loop_ok[OF assms, of "[]" freq prev]
  by (simp add: ngrams_tp_calculate_probabilities_def)


lemma bigram_step:
  "g \<noteq> [] \<Longrightarrow>
   bigram_probs_loop ((g, c) # items) uni acc =
     bigram_probs_loop items uni
       (AList.update g (if dict_get uni (hd g) 0 = 0 then 0
                        else real c / real (dict_get uni (hd g) 0)) acc)"
  by (cases g) (simp_all add: truediv_def Let_def)

lemma bigram_loop_ok:
  assumes "distinct (map fst items)" and "fst ` set acc \<inter> fst ` set items = {}"
    and "[] \<notin> fst ` set items"
  shows "bigram_probs_loop items uni acc =
           Inr (acc @ map (\<lambda>(g, c). (g, if dict_get uni (hd g) 0 = 0 then 0
                                        else real c / real (dict_get uni (hd g) 0))) items)"
  using assms
proof (induction items arbitrary: acc)
  case Nil
  then show ?case by simp
next
  case (Cons p items)
  obtain g c where p: "p = (g, c)" by (cases p)
  let ?v = "if dict_get uni (hd g) 0 = 0 then 0 else real c / real (dict_get uni (hd g) 0)"
  have fresh: "g \<notin> fst ` set acc" using Cons.prems(2) p by auto
  have ne: "g \<noteq> []" using Cons.prems(3) p by auto
  have "bigram_probs_loop (p # items) uni acc = bigram_probs_loop items uni (acc @ [(g, ?v)])"
    unfolding p by (simp only: bigram_step[OF ne] update_fresh[OF fresh])
  also have "\<dots> = Inr ((acc @ [(g, ?v)]) @
                      map (\<lambda>(g, c). (g, if dict_get uni (hd g) 0 = 0 then 0
                                        else real c / real (dict_get uni (hd g) 0))) items)"
    by (rule Cons.IH) (use Cons.prems p in auto)
  finally show ?case by (simp add: p)
qed

lemma nltk_bigram_nonempty: "[] \<notin> set (nltk_ngrams tokens 2)"
  by (auto simp: nltk_ngrams_def)

lemma bigram_probs_char:
  "bigram_probs tokens =
     Inr (map (\<lambda>(g, c). (g, if dict_get (unigrams tokens) (hd g) 0 = 0 then 0
                            else real c / real (dict_get (unigrams tokens) (hd g) 0)))
          (bigram_freq tokens))"
proof -
  have "[] \<notin> fst ` set (bigram_freq tokens)"
    using nltk_bigram_nonempty[of tokens]
    by (simp add: bigram_freq_def FreqDist_def keys_Counter)
  moreover have "distinct (map fst (bigram_freq tokens))"
    by (simp add: bigram_freq_def FreqDist_def distinct_Counter)
  ultimately show ?thesis
    using bigram_loop_ok[of "bigram_freq tokens" "[]" "unigrams tokens"]
    by (simp add: bigram_probs_def)
qed

lemma ngram_probs_1_char:
  "ngram_probs_1 tokens =
     Inr (map (\<lambda>x. (fst x, if total_unigrams tokens = 0 then 0
                           else real (snd x) / real (total_unigrams tokens)))
          (unigrams tokens))"
proof -
  have "dict_comprehension
       (\<lambda>(word, count).
          if total_unigrams tokens > 0 then
            (case truediv count (total_unigrams tokens) of
               Inl e \<Rightarrow> Inl e
             | Inr p \<Rightarrow> Inr (ngram_to_string [word], p))
          else Inr (ngram_to_string [word], 0))
       (unigrams tokens) [] =
     Inr ([] @ map (\<lambda>x. (fst x, if total_unigrams tokens = 0 then 0
                           else real (snd x) / real (total_unigrams tokens))) (unigrams tokens))"
  proof (rule dict_comprehension_total)
    show "distinct (map fst (unigrams tokens))"
      by (simp add: unigrams_def FreqDist_def distinct_Counter)
    show "fst ` set [] \<inter> fst ` set (unigrams tokens) = {}" by simp
  next
    fix x
    show "(case x of (word, count) \<Rightarrow>
            if total_unigrams tokens > 0 then
              (case truediv count (total_unigrams tokens) of
                 Inl e \<Rightarrow> Inl e
               | Inr p \<Rightarrow> Inr (ngram_to_string [word], p))
            else Inr (ngram_to_string [word], 0)) =
          Inr (fst x, if total_unigrams tokens = 0 then 0
                      else real (snd x) / real (total_unigrams tokens))"
      by (cases x) (simp add: truediv_def ngram_to_string_def)
  qed
  then show ?thesis by (simp add: ngram_probs_1_def)
qed

lemma count_le_total:
  fixes c :: nat
  shows "(g, c) \<in> set freq \<Longrightarrow> c \<le> sum_list (map snd freq)"
  using member_le_sum_list[of c "map snd freq"] by force

lemma ratio_range:
  fixes c d :: nat
  assumes "c \<le> d"
  shows "0 \<le> (if d = 0 then 0 else real c / real d) \<and> (if d = 0 then 0 else real c / real d) \<le> 1"
  using assms by simp

lemma spec_policy_B_prob_range:
  assumes "(g, c) \<in> set freq" and "1 < length g \<Longrightarrow> c \<le> dict_get prev (butlast g) 0"
  shows "0 \<le> spec_policy_B_prob freq prev g c \<and> spec_policy_B_prob freq prev g c \<le> 1"
proof (cases "1 < length g")
  case True
  then show ?thesis
    using ratio_range[OF assms(2)[OF True]] by (simp only: spec_policy_B_prob_def if_True)
next
  case False
  then show ?thesis
    using ratio_range[OF count_le_total[OF assms(1)]] by (simp only: spec_policy_B_prob_def if_False)
qed

lemma policy_B_tables_range:
  assumes n: "2 \<le> n"
  shows "\<exists>probs. ngrams_tp_calculate_probabilities (FreqDist (nltk_ngrams tokens n))
                    (FreqDist (nltk_ngrams tokens (n - 1))) = Inr probs \<and>
                 (\<forall>(g, v) \<in> set probs. 0 \<le> v \<and> v \<le> 1)"
proof -
  let ?freq = "FreqDist (nltk_ngrams tokens n)"
  let ?prev = "FreqDist (nltk_ngrams tokens (n - 1))"
  have pos: "0 < n" "0 < n - 1" using n by simp_all
  have up: "nltk_ngrams tokens n = build_ngrams tokens (int n)"
    by (rule nltk_ngrams_build_ngrams[OF pos(1)])
  have low: "nltk_ngrams tokens (n - 1) = build_ngrams tokens (int n - 1)"
  proof -
    have "int (n - 1) = int n - 1" using n by (simp add: of_nat_diff)
    then show ?thesis using nltk_ngrams_build_ngrams[OF pos(2), of tokens] by simp
  qed
  have n1: "1 \<le> int n" using n by simp
  have char: "ngrams_tp_calculate_probabilities ?freq ?prev =
                Inr (map (\<lambda>(g, c). (g, spec_policy_B_prob ?freq ?prev g c)) ?freq)"
    by (rule ngrams_tp_calculate_probabilities_char) (simp add: FreqDist_def distinct_Counter)
  have "0 \<le> v \<and> v \<le> 1"
    if "(g, v) \<in> set (map (\<lambda>(g, c). (g, spec_policy_B_prob ?freq ?prev g c)) ?freq)" for g v
  proof -
    from that obtain c where gc: "(g, c) \<in> set ?freq" and v: "v = spec_policy_B_prob ?freq ?prev g c"
      by auto
    have "c = count_list (build_ngrams tokens (int n)) g"
      using gc by (simp add: FreqDist_def up Counter_items)
    moreover have "dict_get ?prev (butlast g) 0 =
        count_list (build_ngrams tokens (int n - 1)) (butlast g)"
      unfolding FreqDist_def low by (rule dict_get_Counter)
    ultimately have "c \<le> dict_get ?prev (butlast g) 0"
      using prefix_dominance[OF n1, of tokens g] by simp
    then show ?thesis unfolding v by (intro spec_policy_B_prob_range[OF gc])
  qed
  then show ?thesis unfolding char by blast
qed

lemma total_unigrams_pos:
  assumes "(w, k) \<in> set (unigrams tokens)"
  shows "0 < total_unigrams tokens"
proof -
  have "w \<in> set tokens" and "k = count_list tokens w"
    using assms by (simp_all add: unigrams_def FreqDist_def Counter_items)
  then have "0 < k" by (simp add: count_list_pos_iff)
  moreover have "k \<le> total_unigrams tokens"
    unfolding total_unigrams_def by (rule count_le_total[OF assms])
  ultimately show ?thesis by linarith
qed

lemma map_of_map_pairs:
  assumes "distinct (map fst items)" and "(g, c) \<in> set items"
  shows "map_of (map (\<lambda>x. (fst x, f x)) items) g = Some (f (g, c))"
  using assms by (induction items) (auto simp: rev_image_eqI)

text \<open>
  Claim C2. Under Policy B a unigram's probability is its count divided by the sum of all
  unigram counts, and a gram of two or more tokens has its count divided by the count of its
  prefix one order lower; when that prefix count is 0 the result is the value 0, neither an
  error nor smoothed. This is so for \<^verbatim>\<open>calculate_probabilities\<close> on any two dicts, and for
  the unigram comprehension and the bigram loop of \<^verbatim>\<open>process_language\<close>.
\<close>

theorem policy_B_prob:
  "(distinct (map fst ngram_freq) \<and> (g, c) \<in> set ngram_freq \<longrightarrow>
      (\<exists>probs. ngrams_tp_calculate_probabilities ngram_freq prev_ngram_freq = Inr probs \<and>
         map_of probs g = Some (spec_policy_B_prob ngram_freq prev_ngram_freq g c))) \<and>
   ((w, k) \<in> set (unigrams tokens) \<longrightarrow>
      0 < total_unigrams tokens \<and>
      (\<exists>probs. ngram_probs_1 tokens = Inr probs \<and>
         map_of probs w = Some (real k / real (total_unigrams tokens)))) \<and>
   ((b, m) \<in> set (bigram_freq tokens) \<longrightarrow>
      (\<exists>probs. bigram_probs tokens = Inr probs \<and>
         map_of probs b =
           Some (if dict_get (unigrams tokens) (hd b) 0 = 0 then 0
                 else real m / real (dict_get (unigrams tokens) (hd b) 0))))"
proof (intro conjI impI)
  assume a: "distinct (map fst ngram_freq) \<and> (g, c) \<in> set ngram_freq"
  then have d: "distinct (map fst ngram_freq)" and gc: "(g, c) \<in> set ngram_freq" by simp_all
  show "\<exists>probs. ngrams_tp_calculate_probabilities ngram_freq prev_ngram_freq = Inr probs \<and>
         map_of probs g = Some (spec_policy_B_prob ngram_freq prev_ngram_freq g c)"
    unfolding ngrams_tp_calculate_probabilities_char[OF d]
    using map_of_map_items[OF d gc, of "spec_policy_B_prob ngram_freq prev_ngram_freq"] by simp
next
  assume wk: "(w, k) \<in> set (unigrams tokens)"
  show "0 < total_unigrams tokens" by (rule total_unigrams_pos[OF wk])
  then have nz: "total_unigrams tokens \<noteq> 0" by simp
  have d: "distinct (map fst (unigrams tokens))"
    by (simp add: unigrams_def FreqDist_def distinct_Counter)
  show "\<exists>probs. ngram_probs_1 tokens = Inr probs \<and>
         map_of probs w = Some (real k / real (total_unigrams tokens))"
    unfolding ngram_probs_1_char
    using map_of_map_pairs[OF d wk, of "\<lambda>x. if total_unigrams tokens = 0 then 0
                           else real (snd x) / real (total_unigrams tokens)"] nz
    by simp
next
  assume bm: "(b, m) \<in> set (bigram_freq tokens)"
  have d: "distinct (map fst (bigram_freq tokens))"
    by (simp add: bigram_freq_def FreqDist_def distinct_Counter)
  show "\<exists>probs. bigram_probs tokens = Inr probs \<and>
         map_of probs b =
           Some (if dict_get (unigrams tokens) (hd b) 0 = 0 then 0
                 else real m / real (dict_get (unigrams tokens) (hd b) 0))"
    unfolding bigram_probs_char
    using map_of_map_items[OF d bm, of "\<lambda>g c. if dict_get (unigrams tokens) (hd g) 0 = 0 then 0
                            else real c / real (dict_get (unigrams tokens) (hd g) 0)"]
    by simp
qed

theorem policy_B_prob_witness:
  "ngrams_tp_calculate_probabilities
     [([''a'', ''b'', ''a''], 2), ([''x'', ''y'', ''z''], 3)] [([''a'', ''b''], 4)] =
     Inr [([''a'', ''b'', ''a''], 1 / 2), ([''x'', ''y'', ''z''], 0)] \<and>
   ngrams_tp_calculate_probabilities [([''a''], 2), ([''b''], 3)] [] =
     Inr [([''a''], 2 / 5), ([''b''], 3 / 5)] \<and>
   ngram_probs_1 [ustr ''a'', ustr ''b'', ustr ''a'', ustr ''b'', ustr ''c''] =
     Inr [(ustr ''a'', 2 / 5), (ustr ''b'', 2 / 5), (ustr ''c'', 1 / 5)] \<and>
   bigram_probs [ustr ''a'', ustr ''b'', ustr ''a'', ustr ''b'', ustr ''c''] =
     Inr [([ustr ''a'', ustr ''b''], 1), ([ustr ''b'', ustr ''a''], 1 / 2),
          ([ustr ''b'', ustr ''c''], 1 / 2)] \<and>
   (\<exists>probs. ngrams_tp_calculate_probabilities
              [([''a'', ''b'', ''a''], 2), ([''x'', ''y'', ''z''], 3)] [([''a'', ''b''], 4)] = Inr probs \<and>
            map_of probs [''x'', ''y'', ''z''] = Some 0) \<and>
   (\<exists>probs. ngram_probs_1 [ustr ''a'', ustr ''b'', ustr ''a'', ustr ''b'', ustr ''c''] = Inr probs \<and>
            map_of probs (ustr ''a'') = Some (2 / 5)) \<and>
   (\<exists>probs. bigram_probs [ustr ''a'', ustr ''b'', ustr ''a'', ustr ''b'', ustr ''c''] = Inr probs \<and>
            map_of probs [ustr ''a'', ustr ''b''] = Some 1)"
proof -
  let ?T = "[ustr ''a'', ustr ''b'', ustr ''a'', ustr ''b'', ustr ''c'']"
  have u: "unigrams ?T = [(ustr ''a'', 2), (ustr ''b'', 2), (ustr ''c'', 1)]"
    by (simp add: unigrams_def FreqDist_def Counter_def dict_get_def ustr_def)
  have t: "total_unigrams ?T = 5"
    unfolding total_unigrams_def u by simp
  have bf: "bigram_freq ?T =
              [([ustr ''a'', ustr ''b''], 2), ([ustr ''b'', ustr ''a''], 1), ([ustr ''b'', ustr ''c''], 1)]"
    by (simp add: bigram_freq_def nltk_ngrams_def upt_rec FreqDist_def Counter_def dict_get_def ustr_def)
  have r1: "ngrams_tp_calculate_probabilities
     [([''a'', ''b'', ''a''], 2), ([''x'', ''y'', ''z''], 3)] [([''a'', ''b''], 4)] =
     Inr [([''a'', ''b'', ''a''], 1 / 2), ([''x'', ''y'', ''z''], 0)]"
    by (simp add: ngrams_tp_calculate_probabilities_def truediv_def dict_get_def ngram_prefix_butlast)
  have r2: "ngrams_tp_calculate_probabilities [([''a''], 2), ([''b''], 3)] [] =
     Inr [([''a''], 2 / 5), ([''b''], 3 / 5)]"
    by (simp add: ngrams_tp_calculate_probabilities_def truediv_def dict_get_def)
  have r3: "ngram_probs_1 ?T = Inr [(ustr ''a'', 2 / 5), (ustr ''b'', 2 / 5), (ustr ''c'', 1 / 5)]"
    unfolding ngram_probs_1_def u t by (simp add: truediv_def ngram_to_string_def ustr_def)
  have r4: "bigram_probs ?T =
     Inr [([ustr ''a'', ustr ''b''], 1), ([ustr ''b'', ustr ''a''], 1 / 2),
          ([ustr ''b'', ustr ''c''], 1 / 2)]"
    unfolding bigram_probs_def bf u by (simp add: truediv_def dict_get_def ustr_def)
  show ?thesis
    using policy_B_prob[of "[([''a'', ''b'', ''a''], 2), ([''x'', ''y'', ''z''], 3)]"
        "[''x'', ''y'', ''z'']" 3 "[([''a'', ''b''], 4)]" "ustr ''a''" 2 ?T "[ustr ''a'', ustr ''b'']" 2]
    by (simp add: r1 r2 r3 r4 u t bf spec_policy_B_prob_def dict_get_def)
qed

lemma string_keys_range:
  assumes "tbl = Inr probs" and "\<And>g v. (g, v) \<in> set probs \<Longrightarrow> P v"
  shows "\<exists>r. (case tbl of Inl e \<Rightarrow> Inl e | Inr probs \<Rightarrow> string_keys probs) = Inr r \<and>
             (\<forall>(k, v) \<in> set r. P v)"
proof -
  obtain r where r: "string_keys probs = Inr r" and v: "\<forall>(k, v) \<in> set r. v \<in> snd ` set probs"
    using string_keys_values[of probs] by blast
  have "\<forall>(k, v) \<in> set r. P v" using v assms(2) by fastforce
  then show ?thesis using r assms(1) by simp
qed

lemma ngram_probs_1_range:
  "\<exists>p. ngram_probs_1 tokens = Inr p \<and> (\<forall>(k, v) \<in> set p. 0 \<le> v \<and> v \<le> 1)"
proof -
  have "0 \<le> v \<and> v \<le> 1"
    if "(k, v) \<in> set (map (\<lambda>x. (fst x, if total_unigrams tokens = 0 then 0
                           else real (snd x) / real (total_unigrams tokens))) (unigrams tokens))"
    for k v
  proof -
    from that obtain c where kc: "(k, c) \<in> set (unigrams tokens)"
      and v: "v = (if total_unigrams tokens = 0 then 0 else real c / real (total_unigrams tokens))"
      by auto
    have "c \<le> total_unigrams tokens"
      unfolding total_unigrams_def by (rule count_le_total[OF kc])
    then show ?thesis unfolding v by (rule ratio_range)
  qed
  then show ?thesis unfolding ngram_probs_1_char by blast
qed

lemma bigram_probs_range:
  "\<exists>p. bigram_probs tokens = Inr p \<and> (\<forall>(g, v) \<in> set p. 0 \<le> v \<and> v \<le> 1)"
proof -
  have "0 \<le> v \<and> v \<le> 1"
    if "(g, v) \<in> set (map (\<lambda>(g, c). (g, if dict_get (unigrams tokens) (hd g) 0 = 0 then 0
                            else real c / real (dict_get (unigrams tokens) (hd g) 0)))
          (bigram_freq tokens))"
    for g v
  proof -
    from that obtain c where gc: "(g, c) \<in> set (bigram_freq tokens)"
      and v: "v = (if dict_get (unigrams tokens) (hd g) 0 = 0 then 0
                   else real c / real (dict_get (unigrams tokens) (hd g) 0))"
      by auto
    have "c = count_list (build_ngrams tokens 2) g"
      using gc by (simp add: bigram_freq_def FreqDist_def nltk_ngrams_build_ngrams Counter_items)
    moreover have "dict_get (unigrams tokens) (hd g) 0 = count_list tokens (hd g)"
      unfolding unigrams_def FreqDist_def by (rule dict_get_Counter)
    ultimately have "c \<le> dict_get (unigrams tokens) (hd g) 0"
      using bigram_first_dominance[of tokens g] by simp
    then show ?thesis unfolding v by (rule ratio_range)
  qed
  then show ?thesis unfolding bigram_probs_char by blast
qed

text \<open>
  Claim C4. When the tables are counted from one token list, as \<^verbatim>\<open>process_language\<close> does,
  every probability of Policy B lies between 0 and 1: in the five tables \<^verbatim>\<open>ngram_probs[1]\<close> to
  \<^verbatim>\<open>ngram_probs[5]\<close>, in the bigram table before its keys are joined, and in the result of
  \<^verbatim>\<open>calculate_probabilities\<close> for any order \<open>n \<ge> 2\<close> against the order below.
\<close>

theorem policy_B_range:
  "(\<exists>p1 p2 p3 p4 p5.
      ngram_probs_1 tokens = Inr p1 \<and> ngram_probs_2 tokens = Inr p2 \<and>
      ngram_probs_3 tokens = Inr p3 \<and> ngram_probs_4 tokens = Inr p4 \<and>
      ngram_probs_5 tokens = Inr p5 \<and>
      (\<forall>(k, v) \<in> set (p1 @ p2 @ p3 @ p4 @ p5). 0 \<le> v \<and> v \<le> 1)) \<and>
   (\<exists>p. bigram_probs tokens = Inr p \<and> (\<forall>(g, v) \<in> set p. 0 \<le> v \<and> v \<le> 1)) \<and>
   (2 \<le> n \<longrightarrow>
      (\<exists>probs. ngrams_tp_calculate_probabilities (FreqDist (nltk_ngrams tokens n))
                  (FreqDist (nltk_ngrams tokens (n - 1))) = Inr probs \<and>
               (\<forall>(g, v) \<in> set probs. 0 \<le> v \<and> v \<le> 1)))"
proof (intro conjI impI)
  obtain p1 where p1: "ngram_probs_1 tokens = Inr p1" "\<forall>(k, v) \<in> set p1. 0 \<le> v \<and> v \<le> 1"
    using ngram_probs_1_range[of tokens] by blast
  obtain b where b: "bigram_probs tokens = Inr b" "\<forall>(g, v) \<in> set b. 0 \<le> v \<and> v \<le> 1"
    using bigram_probs_range[of tokens] by blast
  obtain p2 where p2: "ngram_probs_2 tokens = Inr p2" "\<forall>(k, v) \<in> set p2. 0 \<le> v \<and> v \<le> 1"
    unfolding ngram_probs_2_def
    using string_keys_range[OF b(1), of "\<lambda>v. 0 \<le> v \<and> v \<le> 1"] b(2) by blast
  obtain t where t: "ngrams_tp_calculate_probabilities (trigram_freq tokens) (bigram_freq tokens) = Inr t"
      "\<forall>(g, v) \<in> set t. 0 \<le> v \<and> v \<le> 1"
    using policy_B_tables_range[of 3 tokens] unfolding trigram_freq_def bigram_freq_def by auto
  obtain p3 where p3: "ngram_probs_3 tokens = Inr p3" "\<forall>(k, v) \<in> set p3. 0 \<le> v \<and> v \<le> 1"
    unfolding ngram_probs_3_def
    using string_keys_range[OF t(1), of "\<lambda>v. 0 \<le> v \<and> v \<le> 1"] t(2) by blast
  obtain q where q: "ngrams_tp_calculate_probabilities (quadrigram_freq tokens) (trigram_freq tokens) = Inr q"
      "\<forall>(g, v) \<in> set q. 0 \<le> v \<and> v \<le> 1"
    using policy_B_tables_range[of 4 tokens] unfolding quadrigram_freq_def trigram_freq_def by auto
  obtain p4 where p4: "ngram_probs_4 tokens = Inr p4" "\<forall>(k, v) \<in> set p4. 0 \<le> v \<and> v \<le> 1"
    unfolding ngram_probs_4_def
    using string_keys_range[OF q(1), of "\<lambda>v. 0 \<le> v \<and> v \<le> 1"] q(2) by blast
  obtain r where r: "ngrams_tp_calculate_probabilities (pentagram_freq tokens) (quadrigram_freq tokens) = Inr r"
      "\<forall>(g, v) \<in> set r. 0 \<le> v \<and> v \<le> 1"
    using policy_B_tables_range[of 5 tokens] unfolding pentagram_freq_def quadrigram_freq_def by auto
  obtain p5 where p5: "ngram_probs_5 tokens = Inr p5" "\<forall>(k, v) \<in> set p5. 0 \<le> v \<and> v \<le> 1"
    unfolding ngram_probs_5_def
    using string_keys_range[OF r(1), of "\<lambda>v. 0 \<le> v \<and> v \<le> 1"] r(2) by blast
  have "\<forall>(k, v) \<in> set (p1 @ p2 @ p3 @ p4 @ p5). 0 \<le> v \<and> v \<le> 1"
    using p1(2) p2(2) p3(2) p4(2) p5(2) by (simp add: ball_Un)
  then show "\<exists>p1 p2 p3 p4 p5.
      ngram_probs_1 tokens = Inr p1 \<and> ngram_probs_2 tokens = Inr p2 \<and>
      ngram_probs_3 tokens = Inr p3 \<and> ngram_probs_4 tokens = Inr p4 \<and>
      ngram_probs_5 tokens = Inr p5 \<and>
      (\<forall>(k, v) \<in> set (p1 @ p2 @ p3 @ p4 @ p5). 0 \<le> v \<and> v \<le> 1)"
    using p1(1) p2(1) p3(1) p4(1) p5(1) by blast
  show "\<exists>p. bigram_probs tokens = Inr p \<and> (\<forall>(g, v) \<in> set p. 0 \<le> v \<and> v \<le> 1)"
    using b by blast
next
  assume "2 \<le> n"
  then show "\<exists>probs. ngrams_tp_calculate_probabilities (FreqDist (nltk_ngrams tokens n))
                  (FreqDist (nltk_ngrams tokens (n - 1))) = Inr probs \<and>
               (\<forall>(g, v) \<in> set probs. 0 \<le> v \<and> v \<le> 1)"
    by (rule policy_B_tables_range)
qed

theorem policy_B_range_witness:
  "ngram_probs_1 [ustr ''a'', ustr ''b'', ustr ''a'', ustr ''b'', ustr ''c''] =
     Inr [(ustr ''a'', 2 / 5), (ustr ''b'', 2 / 5), (ustr ''c'', 1 / 5)] \<and>
   ngram_probs_2 [ustr ''a'', ustr ''b'', ustr ''a'', ustr ''b'', ustr ''c''] =
     Inr [(ustr ''a b'', 1), (ustr ''b a'', 1 / 2), (ustr ''b c'', 1 / 2)] \<and>
   ngram_probs_3 [ustr ''a'', ustr ''b'', ustr ''a'', ustr ''b'', ustr ''c''] =
     Inr [(ustr ''a b a'', 1 / 2), (ustr ''b a b'', 1), (ustr ''a b c'', 1 / 2)] \<and>
   ngram_probs_4 [ustr ''a'', ustr ''b'', ustr ''a'', ustr ''b'', ustr ''c''] =
     Inr [(ustr ''a b a b'', 1), (ustr ''b a b c'', 1)] \<and>
   ngram_probs_5 [ustr ''a'', ustr ''b'', ustr ''a'', ustr ''b'', ustr ''c''] =
     Inr [(ustr ''a b a b c'', 1)] \<and>
   (\<exists>p. ngram_probs_3 [ustr ''a'', ustr ''b'', ustr ''a'', ustr ''b'', ustr ''c''] = Inr p \<and>
        (0 :: real) \<le> snd (hd p) \<and> snd (hd p) \<le> 1)"
proof -
  let ?T = "[ustr ''a'', ustr ''b'', ustr ''a'', ustr ''b'', ustr ''c'']"
  have u: "unigrams ?T = [(ustr ''a'', 2), (ustr ''b'', 2), (ustr ''c'', 1)]"
    by (simp add: unigrams_def FreqDist_def Counter_def dict_get_def ustr_def)
  have t: "total_unigrams ?T = 5"
    unfolding total_unigrams_def u by simp
  have bf: "bigram_freq ?T =
              [([ustr ''a'', ustr ''b''], 2), ([ustr ''b'', ustr ''a''], 1), ([ustr ''b'', ustr ''c''], 1)]"
    by (simp add: bigram_freq_def nltk_ngrams_def upt_rec FreqDist_def Counter_def dict_get_def ustr_def)
  have tf: "trigram_freq ?T =
              [([ustr ''a'', ustr ''b'', ustr ''a''], 1), ([ustr ''b'', ustr ''a'', ustr ''b''], 1),
               ([ustr ''a'', ustr ''b'', ustr ''c''], 1)]"
    by (simp add: trigram_freq_def nltk_ngrams_def upt_rec FreqDist_def Counter_def dict_get_def ustr_def)
  have qf: "quadrigram_freq ?T =
              [([ustr ''a'', ustr ''b'', ustr ''a'', ustr ''b''], 1),
               ([ustr ''b'', ustr ''a'', ustr ''b'', ustr ''c''], 1)]"
    by (simp add: quadrigram_freq_def nltk_ngrams_def upt_rec FreqDist_def Counter_def dict_get_def ustr_def)
  have pf: "pentagram_freq ?T = [([ustr ''a'', ustr ''b'', ustr ''a'', ustr ''b'', ustr ''c''], 1)]"
    by (simp add: pentagram_freq_def nltk_ngrams_def upt_rec FreqDist_def Counter_def dict_get_def ustr_def)
  have r1: "ngram_probs_1 ?T = Inr [(ustr ''a'', 2 / 5), (ustr ''b'', 2 / 5), (ustr ''c'', 1 / 5)]"
    unfolding ngram_probs_1_def u t by (simp add: truediv_def ngram_to_string_def ustr_def)
  have r2: "ngram_probs_2 ?T = Inr [(ustr ''a b'', 1), (ustr ''b a'', 1 / 2), (ustr ''b c'', 1 / 2)]"
    unfolding ngram_probs_2_def bigram_probs_def bf u
    by (simp add: truediv_def dict_get_def string_keys_def ngram_to_string_def ustr_def)
  have r3: "ngram_probs_3 ?T =
      Inr [(ustr ''a b a'', 1 / 2), (ustr ''b a b'', 1), (ustr ''a b c'', 1 / 2)]"
    unfolding ngram_probs_3_def tf bf
    by (simp add: ngrams_tp_calculate_probabilities_def truediv_def dict_get_def ngram_prefix_butlast
          string_keys_def ngram_to_string_def ustr_def)
  have r4: "ngram_probs_4 ?T = Inr [(ustr ''a b a b'', 1), (ustr ''b a b c'', 1)]"
    unfolding ngram_probs_4_def qf tf
    by (simp add: ngrams_tp_calculate_probabilities_def truediv_def dict_get_def ngram_prefix_butlast
          string_keys_def ngram_to_string_def ustr_def)
  have r5: "ngram_probs_5 ?T = Inr [(ustr ''a b a b c'', 1)]"
    unfolding ngram_probs_5_def pf qf
    by (simp add: ngrams_tp_calculate_probabilities_def truediv_def dict_get_def ngram_prefix_butlast
          string_keys_def ngram_to_string_def ustr_def)
  show ?thesis
    using policy_B_range[of ?T 3]
    by (simp add: r1 r2 r3 r4 r5)
qed

section \<open>The empty token list\<close>

text \<open>
  Claim C8. For the empty token list every frequency table of either script is the empty
  dict, and every probability table is computed without an exception: there is no gram, so
  no division is made. Beyond that, Policy B guards each of its divisions, so its three
  computations return a table for every input.
\<close>

theorem empty_tokens_no_division_error:
  "process_corpus_counts [] = [(1, []), (2, []), (3, []), (4, []), (5, [])] \<and>
   process_corpus_probabilities [] = Inr [(2, []), (3, []), (4, []), (5, [])] \<and>
   unigrams [] = [] \<and> bigram_freq [] = [] \<and> trigram_freq [] = [] \<and>
   quadrigram_freq [] = [] \<and> pentagram_freq [] = [] \<and>
   ngram_probs_1 [] = Inr [] \<and> ngram_probs_2 [] = Inr [] \<and> ngram_probs_3 [] = Inr [] \<and>
   ngram_probs_4 [] = Inr [] \<and> ngram_probs_5 [] = Inr [] \<and>
   (\<exists>probs. ngrams_tp_calculate_probabilities ngram_freq prev_ngram_freq = Inr probs) \<and>
   (\<exists>probs. bigram_probs tokens = Inr probs) \<and>
   (\<exists>probs. ngram_probs_1 tokens = Inr probs)"
proof -
  have c: "process_corpus_counts [] = [(1, []), (2, []), (3, []), (4, []), (5, [])]"
    by (simp add: process_corpus_counts_def build_ngrams_def py_range_def upto_rec1)
  have p: "process_corpus_probabilities [] = Inr [(2, []), (3, []), (4, []), (5, [])]"
    unfolding process_corpus_probabilities_def c
    by (simp add: upto_rec1 dict_index_def dict_copy_def pipeline_calculate_probabilities_def)
  have f: "unigrams [] = []" "bigram_freq [] = []" "trigram_freq [] = []"
    "quadrigram_freq [] = []" "pentagram_freq [] = []"
    by (simp_all add: unigrams_def bigram_freq_def trigram_freq_def quadrigram_freq_def
          pentagram_freq_def FreqDist_def Counter_def nltk_ngrams_def)
  have e: "ngram_probs_1 [] = Inr []" "ngram_probs_2 [] = Inr []" "ngram_probs_3 [] = Inr []"
    "ngram_probs_4 [] = Inr []" "ngram_probs_5 [] = Inr []"
    unfolding ngram_probs_1_def ngram_probs_2_def ngram_probs_3_def ngram_probs_4_def
      ngram_probs_5_def bigram_probs_def f
    by (simp_all add: ngrams_tp_calculate_probabilities_def string_keys_def)
  have g: "\<exists>probs. ngrams_tp_calculate_probabilities ngram_freq prev_ngram_freq = Inr probs"
    unfolding ngrams_tp_calculate_probabilities_def by (rule ngrams_tp_loop_succeeds)
  have b: "\<exists>probs. bigram_probs tokens = Inr probs"
    by (simp add: bigram_probs_char)
  have u: "\<exists>probs. ngram_probs_1 tokens = Inr probs"
    by (simp add: ngram_probs_1_char)
  show ?thesis using c p f e g b u by simp
qed

section \<open>Cleaning\<close>

lemma re_sub_no_match:
  "(\<And>c cs. c \<in> set t \<Longrightarrow> m (c # cs) = None) \<Longrightarrow> re_sub m t = t"
  by (induction t) simp_all

lemma re_sub_disallowed:
  "re_sub match_disallowed t = map (\<lambda>c. if allowed_char c then c else 32) t"
  by (induction t) (simp_all add: match_disallowed_def)

lemma re_sub_spaces_Cons:
  "re_sub match_spaces (c # cs) =
     (if is_space c then 32 # re_sub match_spaces (dropWhile is_space cs)
      else c # re_sub match_spaces cs)"
  by (simp add: match_spaces_def length_dropWhile_le)

declare re_sub.simps(2) [simp del]

lemma is_space_32: "is_space 32"
  by (simp add: is_space_def)

lemma allowed_space: "is_space c \<Longrightarrow> allowed_char c"
  by (simp add: allowed_char_def)

lemma collapse_set:
  "c \<in> set (re_sub match_spaces t) \<Longrightarrow> c = 32 \<or> (c \<in> set t \<and> \<not> is_space c)"
proof (induction t rule: length_induct)
  case (1 t)
  show ?case
  proof (cases t)
    case Nil
    then show ?thesis using "1.prems" by simp
  next
    case (Cons a cs)
    show ?thesis
    proof (cases "is_space a")
      case True
      then have "c = 32 \<or> c \<in> set (re_sub match_spaces (dropWhile is_space cs))"
        using "1.prems" Cons by (simp add: re_sub_spaces_Cons)
      moreover have "length (dropWhile is_space cs) < length t"
        using Cons length_dropWhile_le[of is_space cs] by simp
      ultimately have "c = 32 \<or> (c \<in> set (dropWhile is_space cs) \<and> \<not> is_space c)"
        using "1.IH" by blast
      then show ?thesis using Cons set_dropWhileD[of c is_space cs] by auto
    next
      case False
      then have "c = a \<or> c \<in> set (re_sub match_spaces cs)"
        using "1.prems" Cons by (simp add: re_sub_spaces_Cons)
      moreover have "length cs < length t" using Cons by simp
      ultimately show ?thesis using "1.IH" False Cons by auto
    qed
  qed
qed

lemma collapse_hd:
  "\<not> is_space a \<Longrightarrow> re_sub match_spaces (a # cs) = a # re_sub match_spaces cs"
  by (simp add: re_sub_spaces_Cons)

lemma collapse_successively:
  "successively (\<lambda>a b. \<not> (is_space a \<and> is_space b)) (re_sub match_spaces t)"
proof (induction t rule: length_induct)
  case (1 t)
  let ?R = "\<lambda>a b. \<not> (is_space a \<and> is_space b)"
  show ?case
  proof (cases t)
    case Nil
    then show ?thesis by simp
  next
    case (Cons a cs)
    show ?thesis
    proof (cases "is_space a")
      case True
      let ?r = "dropWhile is_space cs"
      have len: "length ?r < length t"
        using Cons length_dropWhile_le[of is_space cs] by simp
      then have ih: "successively ?R (re_sub match_spaces ?r)" using "1.IH" by blast
      have "re_sub match_spaces ?r = [] \<or> \<not> is_space (hd (re_sub match_spaces ?r))"
      proof -
        obtain r where r: "r = ?r" by simp
        have "re_sub match_spaces r = [] \<or> \<not> is_space (hd (re_sub match_spaces r))"
        proof (cases r)
          case Nil
          then show ?thesis by simp
        next
          case (Cons b bs)
          then have "?r \<noteq> []" "hd ?r = b" using r by simp_all
          then have "\<not> is_space b" using hd_dropWhile[of is_space cs] by simp
          then show ?thesis using Cons by (simp add: collapse_hd)
        qed
        then show ?thesis unfolding r .
      qed
      then show ?thesis using ih Cons True
        by (auto simp: re_sub_spaces_Cons successively_Cons)
    next
      case False
      have "successively ?R (re_sub match_spaces cs)" using "1.IH" Cons by simp
      then show ?thesis using Cons False
        by (auto simp: re_sub_spaces_Cons successively_Cons)
    qed
  qed
qed

lemma py_strip_decomp:
  "\<exists>pre post. s = pre @ py_strip s @ post"
proof -
  let ?d = "dropWhile is_space s"
  have "s = takeWhile is_space s @ ?d" by simp
  moreover have "?d = rev (dropWhile is_space (rev ?d)) @ rev (takeWhile is_space (rev ?d))"
    by (metis rev_append rev_rev_ident takeWhile_dropWhile_id)
  ultimately show ?thesis unfolding py_strip_def by metis
qed

lemma py_strip_set: "set (py_strip s) \<subseteq> set s"
  using py_strip_decomp[of s] by (metis Un_upper1 Un_upper2 set_append subset_trans)

lemma py_strip_successively:
  "successively R s \<Longrightarrow> successively R (py_strip s)"
  using py_strip_decomp[of s] by (metis successively_append_iff)

lemma rstrip_hd:
  assumes "rev (dropWhile P (rev ys)) \<noteq> []"
  shows "hd (rev (dropWhile P (rev ys))) = hd ys"
proof (cases ys)
  case Nil
  then show ?thesis using assms by simp
next
  case (Cons y zs)
  show ?thesis
  proof (cases "\<forall>z \<in> set (rev zs). P z")
    case True
    then have "dropWhile P (rev zs @ [y]) = dropWhile P [y]"
      using dropWhile_append2[of "rev zs" P "[y]"] by blast
    then show ?thesis using assms Cons by (simp split: if_splits)
  next
    case False
    then have "dropWhile P (rev zs @ [y]) = dropWhile P (rev zs) @ [y]" by (simp add: dropWhile_append)
    then show ?thesis using Cons by simp
  qed
qed

lemma py_strip_ends:
  assumes "py_strip s \<noteq> []"
  shows "\<not> is_space (hd (py_strip s))" and "\<not> is_space (last (py_strip s))"
proof -
  let ?d = "dropWhile is_space s"
  have ne: "dropWhile is_space (rev ?d) \<noteq> []" using assms by (simp add: py_strip_def)
  have dne: "?d \<noteq> []"
  proof
    assume "?d = []"
    then have "dropWhile is_space (rev ?d) = []" by (simp only: rev.simps dropWhile.simps)
    with ne show False by contradiction
  qed
  have "hd (py_strip s) = hd ?d"
    unfolding py_strip_def by (rule rstrip_hd) (use assms in \<open>simp add: py_strip_def\<close>)
  then show "\<not> is_space (hd (py_strip s))" using hd_dropWhile[OF dne] by simp
  have "last (py_strip s) = hd (dropWhile is_space (rev ?d))"
    unfolding py_strip_def using ne by (simp add: last_rev)
  then show "\<not> is_space (last (py_strip s))" using hd_dropWhile[OF ne] by simp
qed

lemma collapse_clean:
  assumes "\<And>c. c \<in> set t \<Longrightarrow> is_space c \<Longrightarrow> c = 32"
    and "successively (\<lambda>a b. \<not> (is_space a \<and> is_space b)) t"
  shows "re_sub match_spaces t = t"
  using assms
proof (induction t)
  case Nil
  then show ?case by simp
next
  case (Cons a cs)
  have tail: "successively (\<lambda>a b. \<not> (is_space a \<and> is_space b)) cs"
    using Cons.prems(2) by (auto simp: successively_Cons)
  have ih: "re_sub match_spaces cs = cs"
    by (rule Cons.IH) (use Cons.prems(1) tail in auto)
  show ?case
  proof (cases "is_space a")
    case True
    then have a: "a = 32" using Cons.prems(1) by simp
    have "cs = [] \<or> \<not> is_space (hd cs)"
      using Cons.prems(2) True by (auto simp: successively_Cons)
    then have "dropWhile is_space cs = cs" by (simp add: dropWhile_eq_self_iff)
    then show ?thesis using True a ih by (simp add: re_sub_spaces_Cons)
  next
    case False
    then show ?thesis using ih by (simp add: re_sub_spaces_Cons)
  qed
qed

lemma py_strip_clean:
  assumes "s \<noteq> [] \<Longrightarrow> \<not> is_space (hd s) \<and> \<not> is_space (last s)"
  shows "py_strip s = s"
proof (cases "s = []")
  case True
  then show ?thesis by (simp add: py_strip_def)
next
  case False
  then have h: "\<not> is_space (hd s)" and l: "\<not> is_space (last s)" using assms by simp_all
  have d: "dropWhile is_space s = s" using h by (simp add: dropWhile_eq_self_iff)
  have "hd (rev s) = last s" using False by (simp add: hd_rev)
  then have "dropWhile is_space (rev s) = rev s" using l by (simp add: dropWhile_eq_self_iff)
  then show ?thesis by (simp add: py_strip_def d)
qed

lemma clean_text_chars:
  assumes "c \<in> set (clean_text x)"
  shows "allowed_char c \<and> (is_space c \<longrightarrow> c = 32)"
proof -
  let ?t = "re_sub match_disallowed (re_sub match_external_link (re_sub match_internal_link
              (re_sub match_template (re_sub match_tag x))))"
  have "c \<in> set (re_sub match_spaces ?t)"
    using assms py_strip_set[of "re_sub match_spaces ?t"] by (auto simp: clean_text_def Let_def)
  then have "c = 32 \<or> (c \<in> set ?t \<and> \<not> is_space c)" by (rule collapse_set)
  moreover have "allowed_char d" if "d \<in> set ?t" for d
    using that allowed_space[OF is_space_32] by (auto simp: re_sub_disallowed)
  ultimately show ?thesis using allowed_space[OF is_space_32] by auto
qed

lemma clean_text_successively:
  "successively (\<lambda>a b. \<not> (is_space a \<and> is_space b)) (clean_text x)"
  unfolding clean_text_def Let_def
  by (rule py_strip_successively) (rule collapse_successively)

lemma clean_text_ends:
  assumes "clean_text x \<noteq> []"
  shows "\<not> is_space (hd (clean_text x)) \<and> \<not> is_space (last (clean_text x))"
  using assms py_strip_ends unfolding clean_text_def Let_def by blast

text \<open>
  Claim C7. Every character of the cleaned text is in the allowed set (ASCII letters and
  digits, the two Unicode ranges, the two quote marks, the glottal-stop letter, hyphen,
  underscore, white space); no two neighbouring characters are both white space (and the only
  white-space character left is the space U+0020); and the text neither begins nor ends with
  white space.
\<close>

theorem clean_text_output:
  "(\<forall>c \<in> set (clean_text x). allowed_char c \<and> (is_space c \<longrightarrow> c = 32)) \<and>
   (\<forall>i. Suc i < length (clean_text x) \<longrightarrow>
        \<not> (is_space (clean_text x ! i) \<and> is_space (clean_text x ! Suc i))) \<and>
   (clean_text x \<noteq> [] \<longrightarrow>
      \<not> is_space (hd (clean_text x)) \<and> \<not> is_space (last (clean_text x)))"
proof (intro conjI)
  show "\<forall>c \<in> set (clean_text x). allowed_char c \<and> (is_space c \<longrightarrow> c = 32)"
    using clean_text_chars by blast
  show "\<forall>i. Suc i < length (clean_text x) \<longrightarrow>
        \<not> (is_space (clean_text x ! i) \<and> is_space (clean_text x ! Suc i))"
    using clean_text_successively[of x] unfolding successively_conv_nth by blast
  show "clean_text x \<noteq> [] \<longrightarrow>
      \<not> is_space (hd (clean_text x)) \<and> \<not> is_space (last (clean_text x))"
    using clean_text_ends by blast
qed

lemma trigger_not_allowed:
  "\<not> allowed_char 60" "\<not> allowed_char 123" "\<not> allowed_char 91"
  by (simp_all add: allowed_char_def is_space_def)

lemma match_tag_None: "c \<noteq> 60 \<Longrightarrow> match_tag (c # cs) = None"
  by (simp add: match_tag_def split: list.splits)

lemma match_template_None: "c \<noteq> 123 \<Longrightarrow> match_template (c # cs) = None"
  by (simp add: match_template_def split: list.splits)

lemma match_internal_link_None: "c \<noteq> 91 \<Longrightarrow> match_internal_link (c # cs) = None"
  by (simp add: match_internal_link_def split: list.splits)

lemma match_external_link_None: "c \<noteq> 91 \<Longrightarrow> match_external_link (c # cs) = None"
  by (simp add: match_external_link_def strip_prefix_def ustr_def)

lemma clean_text_fixed:
  assumes chars: "\<And>c. c \<in> set y \<Longrightarrow> allowed_char c \<and> (is_space c \<longrightarrow> c = 32)"
    and succ: "successively (\<lambda>a b. \<not> (is_space a \<and> is_space b)) y"
    and ends: "y \<noteq> [] \<Longrightarrow> \<not> is_space (hd y) \<and> \<not> is_space (last y)"
  shows "clean_text y = y"
proof -
  have no: "c \<noteq> 60 \<and> c \<noteq> 123 \<and> c \<noteq> 91" if "c \<in> set y" for c
    using chars[OF that] trigger_not_allowed by auto
  have s1: "re_sub match_tag y = y"
    by (rule re_sub_no_match) (use no in \<open>simp add: match_tag_None\<close>)
  have s2: "re_sub match_template y = y"
    by (rule re_sub_no_match) (use no in \<open>simp add: match_template_None\<close>)
  have s3: "re_sub match_internal_link y = y"
    by (rule re_sub_no_match) (use no in \<open>simp add: match_internal_link_None\<close>)
  have s4: "re_sub match_external_link y = y"
    by (rule re_sub_no_match) (use no in \<open>simp add: match_external_link_None\<close>)
  have s5: "re_sub match_disallowed y = y"
    unfolding re_sub_disallowed using chars by (simp add: map_idI)
  have s6: "re_sub match_spaces y = y"
    by (rule collapse_clean) (use chars succ in auto)
  have s7: "py_strip y = y" by (rule py_strip_clean) (use ends in simp)
  show ?thesis by (simp add: clean_text_def Let_def s1 s2 s3 s4 s5 s6 s7)
qed

text \<open>
  Claim C5. Cleaning is idempotent: a cleaned text has no character that starts one of the
  four markup patterns, only allowed characters, single spaces between words and none at the
  ends, so cleaning it again changes nothing.
\<close>

theorem clean_text_idempotent: "clean_text (clean_text x) = clean_text x"
proof (rule clean_text_fixed)
  show "\<And>c. c \<in> set (clean_text x) \<Longrightarrow> allowed_char c \<and> (is_space c \<longrightarrow> c = 32)"
    by (rule clean_text_chars)
  show "successively (\<lambda>a b. \<not> (is_space a \<and> is_space b)) (clean_text x)"
    by (rule clean_text_successively)
  show "clean_text x \<noteq> [] \<Longrightarrow>
          \<not> is_space (hd (clean_text x)) \<and> \<not> is_space (last (clean_text x))"
    by (rule clean_text_ends)
qed

lemma clean_text_example:
  "clean_text (ustr ''<b>Hi</b>  {{t}} [[l]] there! '') = ustr ''Hi there''"
proof -
  have t0: "ustr ''<b>Hi</b>  {{t}} [[l]] there! '' =
      [60, 98, 62, 72, 105, 60, 47, 98, 62, 32, 32, 123, 123, 116, 125, 125, 32,
       91, 91, 108, 93, 93, 32, 116, 104, 101, 114, 101, 33, 32]"
    by (simp add: ustr_def)
  have t1: "re_sub match_tag
      [60, 98, 62, 72, 105, 60, 47, 98, 62, 32, 32, 123, 123, 116, 125, 125, 32,
       91, 91, 108, 93, 93, 32, 116, 104, 101, 114, 101, 33, 32] =
      [32, 72, 105, 32, 32, 32, 123, 123, 116, 125, 125, 32, 91, 91, 108, 93, 93,
       32, 116, 104, 101, 114, 101, 33, 32]"
    by (simp add: re_sub.simps match_tag_def)
  have t2: "re_sub match_template
      [32, 72, 105, 32, 32, 32, 123, 123, 116, 125, 125, 32, 91, 91, 108, 93, 93,
       32, 116, 104, 101, 114, 101, 33, 32] =
      [32, 72, 105, 32, 32, 32, 32, 32, 91, 91, 108, 93, 93, 32, 116, 104, 101, 114, 101, 33, 32]"
    by (simp add: re_sub.simps match_template_def)
  have t3: "re_sub match_internal_link
      [32, 72, 105, 32, 32, 32, 32, 32, 91, 91, 108, 93, 93, 32, 116, 104, 101, 114, 101, 33, 32] =
      [32, 72, 105, 32, 32, 32, 32, 32, 32, 32, 116, 104, 101, 114, 101, 33, 32]"
    by (simp add: re_sub.simps match_internal_link_def)
  have t4: "re_sub match_external_link
      [32, 72, 105, 32, 32, 32, 32, 32, 32, 32, 116, 104, 101, 114, 101, 33, 32] =
      [32, 72, 105, 32, 32, 32, 32, 32, 32, 32, 116, 104, 101, 114, 101, 33, 32]"
    by (rule re_sub_no_match) (auto simp: match_external_link_None)
  have t5: "re_sub match_disallowed
      [32, 72, 105, 32, 32, 32, 32, 32, 32, 32, 116, 104, 101, 114, 101, 33, 32] =
      [32, 72, 105, 32, 32, 32, 32, 32, 32, 32, 116, 104, 101, 114, 101, 32, 32]"
    by (simp add: re_sub_disallowed allowed_char_def is_space_def)
  have t6: "re_sub match_spaces
      [32, 72, 105, 32, 32, 32, 32, 32, 32, 32, 116, 104, 101, 114, 101, 32, 32] =
      [32, 72, 105, 32, 116, 104, 101, 114, 101, 32]"
    by (simp add: re_sub_spaces_Cons is_space_def)
  have t7: "py_strip [32, 72, 105, 32, 116, 104, 101, 114, 101, 32] =
      [72, 105, 32, 116, 104, 101, 114, 101]"
    by (simp add: py_strip_def is_space_def)
  have t8: "ustr ''Hi there'' = [72, 105, 32, 116, 104, 101, 114, 101]"
    by (simp add: ustr_def)
  show ?thesis
    unfolding clean_text_def Let_def t0 t1 t2 t3 t4 t5 t6 t7 t8 ..
qed

theorem clean_text_output_witness:
  "clean_text (ustr ''<b>Hi</b>  {{t}} [[l]] there! '') = ustr ''Hi there'' \<and>
   allowed_char 72 \<and> allowed_char 32 \<and>
   \<not> (is_space (clean_text (ustr ''<b>Hi</b>  {{t}} [[l]] there! '') ! 2) \<and>
      is_space (clean_text (ustr ''<b>Hi</b>  {{t}} [[l]] there! '') ! 3)) \<and>
   \<not> is_space (hd (clean_text (ustr ''<b>Hi</b>  {{t}} [[l]] there! ''))) \<and>
   \<not> is_space (last (clean_text (ustr ''<b>Hi</b>  {{t}} [[l]] there! '')))"
  using clean_text_output[of "ustr ''<b>Hi</b>  {{t}} [[l]] there! ''"]
  unfolding clean_text_example by (simp add: ustr_def)

theorem clean_text_idempotent_witness:
  "clean_text (ustr ''<b>Hi</b>  {{t}} [[l]] there! '') = ustr ''Hi there'' \<and>
   clean_text (ustr ''Hi there'') = ustr ''Hi there''"
  using clean_text_idempotent[of "ustr ''<b>Hi</b>  {{t}} [[l]] there! ''"]
  unfolding clean_text_example by simp

section \<open>Runs with a missing input file\<close>

lemma seq_trace_prints_Nil [simp]: "seq_trace (prints []) t = t"
  by (simp add: seq_trace_def prints_def)



lemma prints_fields [simp]:
  "written (prints ls) = []" "stdout (prints ls) = ls" "raised (prints ls) = None"
  by (simp_all add: prints_def)

lemma writes_fields [simp]:
  "written (writes fs) = fs" "stdout (writes fs) = []" "raised (writes fs) = None"
  by (simp_all add: writes_def)







lemma read_sentences_file_unreadable:
  "fs file_path = Some (Unreadable e) \<Longrightarrow> read_sentences_file fs file_path = ([], raise e)"
  by (simp add: read_sentences_file_def)


text \<open>An unreadable file ends \<^verbatim>\<open>process_language\<close> with its exception, after the first message.\<close>

lemma process_language_unreadable:
  assumes "fs file_path = Some (Unreadable e)"
  shows "process_language U fs lang file_path =
           \<lparr>written = [], stdout = [[10] @ ustr ''Processing '' @ lang @ ustr ''...''],
            raised = Some e\<rparr>"
  unfolding process_language_def read_sentences_file_unreadable[where fs = fs and file_path = file_path, OF assms]
  by (simp add: seq_trace_def prints_def raise_def)










lemma process_corpus_missing:
  "fs input_file = None \<Longrightarrow>
   process_corpus U fs input_file output_prefix =
     \<lparr>written = [], stdout = [], raised = Some FileNotFoundError\<rparr>"
  by (simp add: process_corpus_def raise_def)



text \<open>
  \<^verbatim>\<open>pipeline.py\<close> has one configured file and no handler: without that file its run ends with
  \<^verbatim>\<open>FileNotFoundError\<close>, having printed and written nothing.
\<close>

lemma pipeline_main_missing_file:
  "fs (ustr ''kabyle_corpus.txt'') = None \<Longrightarrow>
   pipeline_main U fs = \<lparr>written = [], stdout = [], raised = Some FileNotFoundError\<rparr>"
  unfolding pipeline_main_def by (rule process_corpus_missing)

end
